theory Spec2Isabelle
  imports
    Main
    "HOL-Library.Char_ord"
    "HOL-Library.List_Lexorder"
    "HOL-Library.Sublist"
    "HOL-Library.Word"
begin

unbundle bit_operations_syntax

section \<open>Numbers and errors\<close>

text \<open>
  A JavaScript number is an IEEE double. No operation of the code modelled here computes
  with numbers: they are compared (\<^verbatim>\<open>value > 0\<close>, \<^verbatim>\<open>ts > now\<close>), tested with
  \<^verbatim>\<open>Number.isFinite\<close> and printed by \<^verbatim>\<open>JSON.stringify\<close>. A finite number is
  therefore represented by the decimal that \<^verbatim>\<open>Number.prototype.toString\<close> prints for it:
  \<open>Finite m e\<close> stands for \<open>m * 10 ^ e\<close> (so 1.5 is \<open>Finite 15 (-1)\<close> and 0.01 is
  \<open>Finite 1 (-2)\<close>). The map from doubles to their shortest decimals is strictly
  monotone, so comparisons agree.
\<close>

datatype number = Finite int int | PosInfinity | NegInfinity | NaN

text \<open>\<^verbatim>\<open>a < b\<close> on numbers: false as soon as one side is NaN.\<close>

fun num_less :: "number \<Rightarrow> number \<Rightarrow> bool" where
  "num_less NaN _ = False"
| "num_less _ NaN = False"
| "num_less (Finite m1 e1) (Finite m2 e2) =
     (let e = min e1 e2 in m1 * 10 ^ nat (e1 - e) < m2 * 10 ^ nat (e2 - e))"
| "num_less (Finite _ _) PosInfinity = True"
| "num_less (Finite _ _) NegInfinity = False"
| "num_less PosInfinity _ = False"
| "num_less NegInfinity NegInfinity = False"
| "num_less NegInfinity _ = True"

definition num_greater :: "number \<Rightarrow> number \<Rightarrow> bool" where
  "num_greater a b = num_less b a"

fun Number_isFinite :: "number \<Rightarrow> bool" where
  "Number_isFinite (Finite _ _) = True"
| "Number_isFinite _ = False"

definition of_seconds :: "int \<Rightarrow> number" where
  "of_seconds n = Finite n 0"

text \<open>\<^verbatim>\<open>Math.floor(Date.now() / 1000)\<close>, for a clock reading in milliseconds.\<close>

definition unix_now :: "int \<Rightarrow> int" where
  "unix_now clock_ms = clock_ms div 1000"

datatype ErrorCode =
  INVALID_INPUT | WALLET_NOT_CONNECTED | NETWORK_ERROR | TRANSACTION_FAILED
  | NOT_AUTHORIZED | NOT_FOUND | UNKNOWN

text \<open>
  What an operation can throw: a \<^verbatim>\<open>MoviraError\<close> with its code and message, or one
  of the two errors of the platform that the code lets escape.
\<close>

datatype error = MoviraError ErrorCode string | SyntaxError | TypeError

section \<open>JavaScript values\<close>

text \<open>
  The values that reach \<^verbatim>\<open>stableStringify\<close>: the JSON-representable ones, together
  with \<^verbatim>\<open>undefined\<close> (an optional field that is absent reads as \<^verbatim>\<open>undefined\<close>)
  and \<^verbatim>\<open>Date\<close> objects, which the code names. A string is a list of code units; the
  model has the code units below 256. A \<^verbatim>\<open>Date\<close> is represented by what its
  \<^verbatim>\<open>toISOString\<close> returns, \<open>None\<close> for an invalid date.

  An object is the list of its own properties in the order of their creation, with no key
  twice. The order in which the engine enumerates them is \<open>own_keys\<close>: the keys that
  are array indices first, by ascending value, then the other keys in the order of
  creation.
\<close>

datatype jsvalue =
    JUndefined
  | JNull
  | JBool bool
  | JNum number
  | JStr string
  | JDate "string option"
  | JArr "jsvalue list"
  | JObj "(string \<times> jsvalue) list"

text \<open>
  The object given to \<^verbatim>\<open>createInvoice\<close>. The type \<^verbatim>\<open>InvoiceInput\<close> declares five
  properties, two of them optional, and forbids no other (an \<^verbatim>\<open>InvoiceRecord\<close> is an
  \<^verbatim>\<open>InvoiceInput\<close>): \<open>other_props\<close> holds the own properties of the object under
  other names.
\<close>

record InvoiceInput =
  amount :: number
  recipientWallet :: string
  dueDate :: number
  description :: "string option"
  issuerName :: "string option"
  other_props :: "(string \<times> jsvalue) list"

definition is_digit :: "char \<Rightarrow> bool" where
  "is_digit c = (CHR ''0'' \<le> c \<and> c \<le> CHR ''9'')"

definition digit_val :: "char \<Rightarrow> nat" where
  "digit_val c = of_char c - 48"

definition dec_value :: "string \<Rightarrow> int" where
  "dec_value k = fold (\<lambda>c n. 10 * n + int (digit_val c)) k 0"

text \<open>An array index: the canonical decimal string of an integer from 0 to \<open>2^32 - 2\<close>.\<close>

definition is_array_index :: "string \<Rightarrow> bool" where
  "is_array_index k =
     (k \<noteq> [] \<and> list_all is_digit k \<and> (k = ''0'' \<or> hd k \<noteq> CHR ''0'')
      \<and> length k \<le> 10 \<and> dec_value k \<le> 4294967294)"

definition own_keys :: "(string \<times> jsvalue) list \<Rightarrow> string list" where
  "own_keys ps =
     sort_key dec_value (filter is_array_index (map fst ps))
     @ filter (\<lambda>k. \<not> is_array_index k) (map fst ps)"

text \<open>
  Reading a property (\<^verbatim>\<open>value[k]\<close>) of an object: the own property, \<^verbatim>\<open>undefined\<close>
  when there is none. (The code reads no name that \<^verbatim>\<open>Object.prototype\<close> defines,
  except through the keys of the object itself.)
\<close>

definition obj_get :: "(string \<times> jsvalue) list \<Rightarrow> string \<Rightarrow> jsvalue" where
  "obj_get ps k = (case map_of ps k of Some v \<Rightarrow> v | None \<Rightarrow> JUndefined)"

text \<open>Creating or overwriting an own data property: an existing key keeps its place.\<close>

fun obj_define :: "(string \<times> jsvalue) list \<Rightarrow> string \<Rightarrow> jsvalue \<Rightarrow> (string \<times> jsvalue) list" where
  "obj_define [] k v = [(k, v)]"
| "obj_define ((k', v') # ps) k v =
     (if k' = k then (k, v) # ps else (k', v') # obj_define ps k v)"

text \<open>
  The assignment \<^verbatim>\<open>res[k] = v\<close> on an object made by \<^verbatim>\<open>{}\<close>: it creates the own
  property, except for the key \<^verbatim>\<open>__proto__\<close>, which is the accessor of
  \<^verbatim>\<open>Object.prototype\<close>: assigning it creates no own property.
\<close>

definition obj_set :: "(string \<times> jsvalue) list \<Rightarrow> string \<Rightarrow> jsvalue \<Rightarrow> (string \<times> jsvalue) list" where
  "obj_set res k v = (if k = ''__proto__'' then res else obj_define res k v)"

lemma obj_get_size: "k \<in> fst ` set ps \<Longrightarrow> size (obj_get ps k) < Suc (size_list (size_prod (\<lambda>_. 0) size) ps)"
proof (induction ps)
  case Nil
  then show ?case by simp
next
  case (Cons p ps)
  show ?case
  proof (cases "fst p = k")
    case True
    then show ?thesis by (cases p) (simp add: obj_get_def)
  next
    case False
    with Cons.prems have "k \<in> fst ` set ps" by auto
    from Cons.IH [OF this] False show ?thesis
      by (cases p) (simp add: obj_get_def)
  qed
qed

lemma set_own_keys [simp]: "set (own_keys ps) = fst ` set ps"
  by (auto simp: own_keys_def)

subsection \<open>utils/serialization.ts: sortObject\<close>

text \<open>
  \<^verbatim>\<open>Object.keys(value).sort()\<close> sorts the enumerated keys with the default comparator,
  which compares strings code unit by code unit: the lexicographic order of
  \<open>string\<close>. The result object \<open>res\<close> starts empty and receives the keys in that
  order.
\<close>

function sortObject :: "jsvalue \<Rightarrow> jsvalue" where
  "sortObject (JArr xs) = JArr (map sortObject xs)"
| "sortObject (JObj ps) =
     JObj (fold (\<lambda>k res. obj_set res k (sortObject (obj_get ps k))) (sort (own_keys ps)) [])"
| "sortObject JUndefined = JUndefined"
| "sortObject JNull = JNull"
| "sortObject (JBool b) = JBool b"
| "sortObject (JNum n) = JNum n"
| "sortObject (JStr s) = JStr s"
| "sortObject (JDate d) = JDate d"
  by pat_completeness auto
termination
proof (relation "measure size", goal_cases)
  case 1
  then show ?case by simp
next
  case (2 xs x)
  then show ?case by (simp add: less_Suc_eq_le size_list_estimation')
next
  case (3 ps k res)
  then show ?case using obj_get_size [of k ps] by simp
qed

subsection \<open>The platform: JSON.stringify\<close>

text \<open>
  \<^verbatim>\<open>JSON.stringify\<close> with one argument, as ECMA-262 defines it: no white space, the
  properties of an object in the order of \<open>own_keys\<close>, a property whose value is
  \<^verbatim>\<open>undefined\<close> left out, \<^verbatim>\<open>undefined\<close> in an array and a number that is not
  finite written \<^verbatim>\<open>null\<close>, a \<^verbatim>\<open>Date\<close> written as its \<^verbatim>\<open>toJSON\<close> string.
\<close>

definition digit_char :: "nat \<Rightarrow> char" where
  "digit_char d = ''0123456789'' ! d"

function dec_digits :: "int \<Rightarrow> string" where
  "dec_digits n =
     (if n < 10 then [digit_char (nat n)]
      else dec_digits (n div 10) @ [digit_char (nat (n mod 10))])"
  by pat_completeness auto
termination
  by (relation "measure nat") auto

declare dec_digits.simps [simp del]

function strip_zeros :: "int \<Rightarrow> int \<Rightarrow> int \<times> int" where
  "strip_zeros s e = (if 0 < s \<and> s mod 10 = 0 then strip_zeros (s div 10) (e + 1) else (s, e))"
  by pat_completeness auto
termination
  by (relation "measure (\<lambda>(s, e). nat s)") auto

declare strip_zeros.simps [simp del]

text \<open>
  \<^verbatim>\<open>Number::toString\<close> in radix 10: with \<open>k\<close> significant digits and the decimal point
  after the \<open>n\<close>-th of them, plain digits for \<open>k \<le> n \<le> 21\<close>, a decimal point inside
  for \<open>0 < n \<le> 21\<close>, leading \<^verbatim>\<open>0.00\<close> for \<open>-6 < n \<le> 0\<close>, and exponent notation
  otherwise.
\<close>

definition digits_toString :: "string \<Rightarrow> int \<Rightarrow> string" where
  "digits_toString ds n =
     (let k = int (length ds)
      in if k \<le> n \<and> n \<le> 21 then ds @ replicate (nat (n - k)) CHR ''0''
         else if 0 < n \<and> n \<le> 21 then take (nat n) ds @ ''.'' @ drop (nat n) ds
         else if -6 < n \<and> n \<le> 0 then ''0.'' @ replicate (nat (- n)) CHR ''0'' @ ds
         else
           (if k = 1 then ds else take 1 ds @ ''.'' @ drop 1 ds)
           @ ''e'' @ (if n - 1 < 0 then ''-'' else ''+'') @ dec_digits \<bar>n - 1\<bar>)"

definition finite_toString :: "int \<Rightarrow> int \<Rightarrow> string" where
  "finite_toString m e =
     (if m = 0 then ''0''
      else
        let (s, e') = strip_zeros \<bar>m\<bar> e;
            ds = dec_digits s
        in (if m < 0 then ''-'' else []) @ digits_toString ds (e' + int (length ds)))"

fun Number_toString :: "number \<Rightarrow> string" where
  "Number_toString (Finite m e) = finite_toString m e"
| "Number_toString PosInfinity = ''Infinity''"
| "Number_toString NegInfinity = ''-Infinity''"
| "Number_toString NaN = ''NaN''"

definition hex_char :: "nat \<Rightarrow> char" where
  "hex_char d = ''0123456789abcdef'' ! d"

definition quote_char :: "char \<Rightarrow> string" where
  \<open>quote_char c =
     (if c = CHR 0x08 then [CHR 0x5C, CHR ''b'']
      else if c = CHR 0x09 then [CHR 0x5C, CHR ''t'']
      else if c = CHR 0x0A then [CHR 0x5C, CHR ''n'']
      else if c = CHR 0x0C then [CHR 0x5C, CHR ''f'']
      else if c = CHR 0x0D then [CHR 0x5C, CHR ''r'']
      else if c = CHR 0x22 then [CHR 0x5C, CHR 0x22]
      else if c = CHR 0x5C then [CHR 0x5C, CHR 0x5C]
      else if of_char c < (32 :: nat) then
        [CHR 0x5C, CHR ''u'', CHR ''0'', CHR ''0'',
         hex_char (of_char c div 16), hex_char (of_char c mod 16)]
      else [c])\<close>

definition QuoteJSONString :: "string \<Rightarrow> string" where
  "QuoteJSONString s = CHR 0x22 # concat (map quote_char s) @ [CHR 0x22]"

fun join_comma :: "string list \<Rightarrow> string" where
  "join_comma [] = []"
| "join_comma [x] = x"
| "join_comma (x # y # ys) = x @ '','' @ join_comma (y # ys)"

text \<open>The result is \<open>None\<close> where \<^verbatim>\<open>JSON.stringify\<close> returns \<^verbatim>\<open>undefined\<close>.\<close>

function JSON_stringify :: "jsvalue \<Rightarrow> string option" where
  "JSON_stringify JUndefined = None"
| "JSON_stringify JNull = Some ''null''"
| "JSON_stringify (JBool b) = Some (if b then ''true'' else ''false'')"
| "JSON_stringify (JNum n) = Some (if Number_isFinite n then Number_toString n else ''null'')"
| "JSON_stringify (JStr s) = Some (QuoteJSONString s)"
| "JSON_stringify (JDate d) =
     Some (case d of None \<Rightarrow> ''null'' | Some s \<Rightarrow> QuoteJSONString s)"
| "JSON_stringify (JArr xs) =
     Some (''['' @ join_comma
        (map (\<lambda>x. case JSON_stringify x of None \<Rightarrow> ''null'' | Some t \<Rightarrow> t) xs) @ '']'')"
| "JSON_stringify (JObj ps) =
     Some (''{'' @ join_comma
        (concat (map (\<lambda>k. case JSON_stringify (obj_get ps k) of None \<Rightarrow> []
                           | Some t \<Rightarrow> [QuoteJSONString k @ '':'' @ t]) (own_keys ps))) @ ''}'')"
  by pat_completeness auto
termination
proof (relation "measure size", goal_cases)
  case 1
  then show ?case by simp
next
  case (2 xs x)
  then show ?case by (simp add: less_Suc_eq_le size_list_estimation')
next
  case (3 ps k)
  then show ?case using obj_get_size [of k ps] by simp
qed

subsection \<open>utils/serialization.ts: stableStringify\<close>

definition stableStringify :: "jsvalue \<Rightarrow> string option" where
  "stableStringify obj = JSON_stringify (sortObject obj)"

subsection \<open>The platform: JSON.parse\<close>

text \<open>
  \<^verbatim>\<open>JSON.parse\<close> with one argument: the JSON grammar with its white space, a
  repeated key keeping its first place and its last value. \<open>None\<close> is the
  \<^verbatim>\<open>SyntaxError\<close> it throws. Two limits of the model: a number keeps every digit of
  its text (a double rounds to 17 significant digits), and an escape \<^verbatim>\<open>\uXXXX\<close> of a
  code unit above 255 is not read.
\<close>

definition is_ws :: "char \<Rightarrow> bool" where
  "is_ws c = (c = CHR '' '' \<or> c = CHR 0x09 \<or> c = CHR 0x0A \<or> c = CHR 0x0D)"

definition skip_ws :: "string \<Rightarrow> string" where
  "skip_ws s = dropWhile is_ws s"

definition is_hex :: "char \<Rightarrow> bool" where
  "is_hex c = (is_digit c \<or> (CHR ''a'' \<le> c \<and> c \<le> CHR ''f'') \<or> (CHR ''A'' \<le> c \<and> c \<le> CHR ''F''))"

definition hex_val :: "char \<Rightarrow> nat" where
  "hex_val c = (if is_digit c then of_char c - 48
                else if CHR ''a'' \<le> c then of_char c - 87 else of_char c - 55)"

definition unescape :: "char \<Rightarrow> char option" where
  "unescape e =
     (if e = CHR 0x22 then Some (CHR 0x22)
      else if e = CHR 0x5C then Some (CHR 0x5C)
      else if e = CHR ''/'' then Some (CHR ''/'')
      else if e = CHR ''b'' then Some (CHR 0x08)
      else if e = CHR ''f'' then Some (CHR 0x0C)
      else if e = CHR ''n'' then Some (CHR 0x0A)
      else if e = CHR ''r'' then Some (CHR 0x0D)
      else if e = CHR ''t'' then Some (CHR 0x09)
      else None)"

definition cons_result :: "char \<Rightarrow> (string \<times> string) option \<Rightarrow> (string \<times> string) option" where
  "cons_result c r = map_option (\<lambda>(t, rest). (c # t, rest)) r"

text \<open>The characters of a string after its opening quote, and the text after the closing one.\<close>

fun parse_string :: "string \<Rightarrow> (string \<times> string) option" where
  "parse_string [] = None"
| "parse_string (c # r) =
     (if c = CHR 0x22 then Some ([], r)
      else if c = CHR 0x5C then
        (case r of
           [] \<Rightarrow> None
         | e # r' \<Rightarrow>
             if e = CHR ''u'' then
               (case r' of
                  h1 # h2 # h3 # h4 # r'' \<Rightarrow>
                    if is_hex h1 \<and> is_hex h2 \<and> is_hex h3 \<and> is_hex h4
                       \<and> hex_val h1 = 0 \<and> hex_val h2 = 0
                    then cons_result (char_of (16 * hex_val h3 + hex_val h4)) (parse_string r'')
                    else None
                | _ \<Rightarrow> None)
             else
               (case unescape e of
                  None \<Rightarrow> None
                | Some d \<Rightarrow> cons_result d (parse_string r')))
      else if of_char c < (32 :: nat) then None
      else cons_result c (parse_string r))"

text \<open>The number a finite decimal denotes, with no trailing zero in its digits.\<close>

definition norm_number :: "int \<Rightarrow> int \<Rightarrow> number" where
  "norm_number m e =
     (if m = 0 then Finite 0 0
      else let (s, e') = strip_zeros \<bar>m\<bar> e in Finite (if m < 0 then - s else s) e')"

definition parse_exponent :: "string \<Rightarrow> (int \<times> string) option" where
  "parse_exponent s =
     (case s of
        [] \<Rightarrow> Some (0, s)
      | c # r \<Rightarrow>
          if c = CHR ''e'' \<or> c = CHR ''E'' then
            (let (neg, r1) =
               (case r of [] \<Rightarrow> (False, r)
                | d # r' \<Rightarrow> if d = CHR ''-'' then (True, r')
                             else if d = CHR ''+'' then (False, r') else (False, r));
                 ds = takeWhile is_digit r1
             in if ds = [] then None
                else Some (if neg then - dec_value ds else dec_value ds, dropWhile is_digit r1))
          else Some (0, s))"

definition parse_fraction :: "string \<Rightarrow> (string \<times> string) option" where
  "parse_fraction s =
     (case s of
        [] \<Rightarrow> Some ([], s)
      | c # r \<Rightarrow>
          if c = CHR ''.'' then
            (let ds = takeWhile is_digit r
             in if ds = [] then None else Some (ds, dropWhile is_digit r))
          else Some ([], s))"

definition parse_unsigned :: "bool \<Rightarrow> string \<Rightarrow> (number \<times> string) option" where
  "parse_unsigned neg s =
     (let ip = takeWhile is_digit s
      in if ip = [] \<or> (length ip > 1 \<and> hd ip = CHR ''0'') then None
         else
           (case parse_fraction (dropWhile is_digit s) of
              None \<Rightarrow> None
            | Some (fp, s2) \<Rightarrow>
                (case parse_exponent s2 of
                   None \<Rightarrow> None
                 | Some (ex, s3) \<Rightarrow>
                     Some (norm_number ((if neg then -1 else 1) * dec_value (ip @ fp))
                                       (ex - int (length fp)), s3))))"

definition parse_number :: "string \<Rightarrow> (number \<times> string) option" where
  "parse_number s =
     (case s of
        [] \<Rightarrow> None
      | c # r \<Rightarrow> if c = CHR ''-'' then parse_unsigned True r else parse_unsigned False s)"

text \<open>
  Values, the elements of an array and the members of an object. The first argument
  bounds the depth of the calls; \<open>JSON_parse\<close> starts with the length of the text, which
  no text exhausts.
\<close>

fun parse_value :: "nat \<Rightarrow> string \<Rightarrow> (jsvalue \<times> string) option"
  and parse_elements :: "nat \<Rightarrow> jsvalue list \<Rightarrow> string \<Rightarrow> (jsvalue list \<times> string) option"
  and parse_members ::
    "nat \<Rightarrow> (string \<times> jsvalue) list \<Rightarrow> string \<Rightarrow> ((string \<times> jsvalue) list \<times> string) option"
where
  "parse_value 0 s = None"
| "parse_value (Suc n) s =
     (case s of
        [] \<Rightarrow> None
      | c # r \<Rightarrow>
          if c = CHR ''{'' then
            (case skip_ws r of
               [] \<Rightarrow> None
             | d # r' \<Rightarrow>
                 if d = CHR ''}'' then Some (JObj [], r')
                 else map_option (\<lambda>(ps, t). (JObj ps, t)) (parse_members n [] (d # r')))
          else if c = CHR ''['' then
            (case skip_ws r of
               [] \<Rightarrow> None
             | d # r' \<Rightarrow>
                 if d = CHR '']'' then Some (JArr [], r')
                 else map_option (\<lambda>(xs, t). (JArr xs, t)) (parse_elements n [] (d # r')))
          else if c = CHR 0x22 then map_option (\<lambda>(x, t). (JStr x, t)) (parse_string r)
          else if c = CHR ''-'' \<or> is_digit c then
            map_option (\<lambda>(x, t). (JNum x, t)) (parse_number s)
          else if prefix ''true'' s then Some (JBool True, drop 4 s)
          else if prefix ''false'' s then Some (JBool False, drop 5 s)
          else if prefix ''null'' s then Some (JNull, drop 4 s)
          else None)"
| "parse_elements 0 acc s = None"
| "parse_elements (Suc n) acc s =
     (case parse_value n s of
        None \<Rightarrow> None
      | Some (v, r) \<Rightarrow>
          (case skip_ws r of
             [] \<Rightarrow> None
           | c # r' \<Rightarrow>
               if c = CHR '','' then parse_elements n (acc @ [v]) (skip_ws r')
               else if c = CHR '']'' then Some (acc @ [v], r')
               else None))"
| "parse_members 0 acc s = None"
| "parse_members (Suc n) acc s =
     (case s of
        [] \<Rightarrow> None
      | q # r \<Rightarrow>
          if q \<noteq> CHR 0x22 then None
          else
            (case parse_string r of
               None \<Rightarrow> None
             | Some (k, r1) \<Rightarrow>
                 (case skip_ws r1 of
                    [] \<Rightarrow> None
                  | c # r2 \<Rightarrow>
                      if c \<noteq> CHR '':'' then None
                      else
                        (case parse_value n (skip_ws r2) of
                           None \<Rightarrow> None
                         | Some (v, r3) \<Rightarrow>
                             (case skip_ws r3 of
                                [] \<Rightarrow> None
                              | d # r4 \<Rightarrow>
                                  if d = CHR '','' then
                                    parse_members n (obj_define acc k v) (skip_ws r4)
                                  else if d = CHR ''}'' then Some (obj_define acc k v, r4)
                                  else None)))))"

definition JSON_parse :: "string \<Rightarrow> jsvalue option" where
  "JSON_parse text =
     (case parse_value (Suc (length text)) (skip_ws text) of
        None \<Rightarrow> None
      | Some (v, r) \<Rightarrow> if skip_ws r = [] then Some v else None)"

subsection \<open>The platform: strings\<close>

text \<open>\<^verbatim>\<open>s.includes(t)\<close>: \<open>t\<close> occurs in \<open>s\<close> as a run of consecutive code units.\<close>

fun str_includes :: "string \<Rightarrow> string \<Rightarrow> bool" where
  "str_includes [] t = (t = [])"
| "str_includes (c # cs) t = (prefix t (c # cs) \<or> str_includes cs t)"

text \<open>
  \<^verbatim>\<open>s.toLowerCase()\<close> on code units below 256: the letters A to Z, and the capital
  letters of Latin-1 (U+00C0 to U+00DE, but for the multiplication sign U+00D7).
\<close>

definition lower_char :: "char \<Rightarrow> char" where
  "lower_char c =
     (if (CHR ''A'' \<le> c \<and> c \<le> CHR ''Z'')
         \<or> (CHR 0xC0 \<le> c \<and> c \<le> CHR 0xDE \<and> c \<noteq> CHR 0xD7)
      then char_of (of_char c + (32 :: nat)) else c)"

definition toLowerCase :: "string \<Rightarrow> string" where
  "toLowerCase s = map lower_char s"

subsection \<open>The platform: SHA-256\<close>

text \<open>
  \<^verbatim>\<open>crypto.createHash('sha256').update(value).digest('hex')\<close>: the SHA-256 digest
  (FIPS 180-4) of the UTF-8 bytes of the string, as 64 lowercase hexadecimal digits.
\<close>

type_synonym w32 = "32 word"

definition Ch :: "w32 \<Rightarrow> w32 \<Rightarrow> w32 \<Rightarrow> w32" where
  "Ch x y z = (x AND y) XOR (NOT x AND z)"

definition Maj :: "w32 \<Rightarrow> w32 \<Rightarrow> w32 \<Rightarrow> w32" where
  "Maj x y z = (x AND y) XOR (x AND z) XOR (y AND z)"

definition Sigma0 :: "w32 \<Rightarrow> w32" where
  "Sigma0 x = word_rotr 2 x XOR word_rotr 13 x XOR word_rotr 22 x"

definition Sigma1 :: "w32 \<Rightarrow> w32" where
  "Sigma1 x = word_rotr 6 x XOR word_rotr 11 x XOR word_rotr 25 x"

definition sigma0 :: "w32 \<Rightarrow> w32" where
  "sigma0 x = word_rotr 7 x XOR word_rotr 18 x XOR drop_bit 3 x"

definition sigma1 :: "w32 \<Rightarrow> w32" where
  "sigma1 x = word_rotr 17 x XOR word_rotr 19 x XOR drop_bit 10 x"

definition sha_K :: "w32 list" where
  "sha_K =
    [
     0x428A2F98, 0x71374491, 0xB5C0FBCF, 0xE9B5DBA5,
     0x3956C25B, 0x59F111F1, 0x923F82A4, 0xAB1C5ED5,
     0xD807AA98, 0x12835B01, 0x243185BE, 0x550C7DC3,
     0x72BE5D74, 0x80DEB1FE, 0x9BDC06A7, 0xC19BF174,
     0xE49B69C1, 0xEFBE4786, 0x0FC19DC6, 0x240CA1CC,
     0x2DE92C6F, 0x4A7484AA, 0x5CB0A9DC, 0x76F988DA,
     0x983E5152, 0xA831C66D, 0xB00327C8, 0xBF597FC7,
     0xC6E00BF3, 0xD5A79147, 0x06CA6351, 0x14292967,
     0x27B70A85, 0x2E1B2138, 0x4D2C6DFC, 0x53380D13,
     0x650A7354, 0x766A0ABB, 0x81C2C92E, 0x92722C85,
     0xA2BFE8A1, 0xA81A664B, 0xC24B8B70, 0xC76C51A3,
     0xD192E819, 0xD6990624, 0xF40E3585, 0x106AA070,
     0x19A4C116, 0x1E376C08, 0x2748774C, 0x34B0BCB5,
     0x391C0CB3, 0x4ED8AA4A, 0x5B9CCA4F, 0x682E6FF3,
     0x748F82EE, 0x78A5636F, 0x84C87814, 0x8CC70208,
     0x90BEFFFA, 0xA4506CEB, 0xBEF9A3F7, 0xC67178F2
    ]"

type_synonym sha_state = "w32 \<times> w32 \<times> w32 \<times> w32 \<times> w32 \<times> w32 \<times> w32 \<times> w32"

definition sha_H0 :: sha_state where
  "sha_H0 = (0x6A09E667, 0xBB67AE85, 0x3C6EF372, 0xA54FF53A,
             0x510E527F, 0x9B05688C, 0x1F83D9AB, 0x5BE0CD19)"

text \<open>The UTF-8 bytes of a code unit below 256: one byte below 128, two from there on.\<close>

definition utf8 :: "char \<Rightarrow> w32 list" where
  "utf8 c = (let n = of_char c :: w32
             in if n < 128 then [n] else [0xC0 OR drop_bit 6 n, 0x80 OR (n AND 0x3F)])"

definition sha_pad :: "w32 list \<Rightarrow> w32 list" where
  "sha_pad bs =
     bs @ [0x80] @ replicate (nat ((55 - int (length bs)) mod 64)) 0
     @ map (\<lambda>i. of_int ((8 * int (length bs)) div 2 ^ (8 * i) mod 256)) [7, 6, 5, 4, 3, 2, 1, 0]"

fun be_words :: "w32 list \<Rightarrow> w32 list" where
  "be_words (a # b # c # d # bs) =
     (push_bit 24 a OR push_bit 16 b OR push_bit 8 c OR d) # be_words bs"
| "be_words _ = []"

function sha_blocks :: "w32 list \<Rightarrow> w32 list list" where
  "sha_blocks ws = (if length ws < 16 then [] else take 16 ws # sha_blocks (drop 16 ws))"
  by pat_completeness auto
termination
  by (relation "measure length") auto

declare sha_blocks.simps [simp del]

primrec sha_extend :: "nat \<Rightarrow> w32 list \<Rightarrow> w32 list" where
  "sha_extend 0 w = w"
| "sha_extend (Suc n) w =
     sha_extend n
       (w @ [sigma1 (w ! (length w - 2)) + w ! (length w - 7)
             + sigma0 (w ! (length w - 15)) + w ! (length w - 16)])"

definition sha_round :: "w32 \<times> w32 \<Rightarrow> sha_state \<Rightarrow> sha_state" where
  "sha_round kw st =
     (case st of (a, b, c, d, e, f, g, h) \<Rightarrow>
        let T1 = h + Sigma1 e + Ch e f g + fst kw + snd kw;
            T2 = Sigma0 a + Maj a b c
        in (T1 + T2, a, b, c, d + T1, e, f, g))"

definition sha_compress :: "w32 list \<Rightarrow> sha_state \<Rightarrow> sha_state" where
  "sha_compress block st =
     (case (st, fold sha_round (zip sha_K (sha_extend 48 block)) st) of
        ((a, b, c, d, e, f, g, h), (a', b', c', d', e', f', g', h')) \<Rightarrow>
          (a + a', b + b', c + c', d + d', e + e', f + f', g + g', h + h'))"

definition hex32 :: "w32 \<Rightarrow> string" where
  "hex32 w = map (\<lambda>i. hex_char (unat (drop_bit (4 * i) w AND 0xF))) [7, 6, 5, 4, 3, 2, 1, 0]"

definition sha256Hex :: "string \<Rightarrow> string" where
  "sha256Hex v =
     (case fold sha_compress (sha_blocks (be_words (sha_pad (concat (map utf8 v))))) sha_H0 of
        (a, b, c, d, e, f, g, h) \<Rightarrow>
          hex32 a @ hex32 b @ hex32 c @ hex32 d @ hex32 e @ hex32 f @ hex32 g @ hex32 h)"

subsection \<open>utils/validation.ts\<close>

definition isValidAmount :: "number \<Rightarrow> bool" where
  "isValidAmount v = (Number_isFinite v \<and> num_greater v (Finite 0 0))"

definition isValidPublicKeyString :: "string \<Rightarrow> bool" where
  "isValidPublicKeyString v = (length v \<ge> 32 \<and> length v \<le> 44)"

definition isFutureTimestamp :: "int \<Rightarrow> number \<Rightarrow> bool" where
  "isFutureTimestamp clock_ms ts = num_greater ts (of_seconds (unix_now clock_ms))"

subsection \<open>invoice/InvoiceValidator.ts\<close>

definition validateInvoiceInput :: "int \<Rightarrow> InvoiceInput \<Rightarrow> error + unit" where
  "validateInvoiceInput clock_ms input =
     (if \<not> isValidAmount (amount input) then
        Inl (MoviraError INVALID_INPUT ''Invalid invoice amount'')
      else if \<not> isValidPublicKeyString (recipientWallet input) then
        Inl (MoviraError INVALID_INPUT ''Invalid recipient wallet'')
      else if \<not> isFutureTimestamp clock_ms (dueDate input) then
        Inl (MoviraError INVALID_INPUT ''dueDate must be in the future'')
      else if (case description input of None \<Rightarrow> False
               | Some d \<Rightarrow> d \<noteq> [] \<and> length d > 1024) then
        Inl (MoviraError INVALID_INPUT ''description too long'')
      else Inr ())"

section \<open>The ledger and the services\<close>

text \<open>
  The services reach the ledger through \<^verbatim>\<open>getSignaturesForAddress\<close> (the wallet's
  transactions, newest first, cut at \<open>limit\<close>) and \<^verbatim>\<open>getTransaction\<close>. What a scan
  reads of a transaction is the text of its memo instruction, \<open>memoData\<close>; it skips a
  transaction that cannot be fetched or has no memo instruction, and both cases are
  \<open>None\<close> here. The memo of a submitted transaction is the text that was submitted. The
  ledger is the list of the wallet's entries, newest first; an operation sees one state
  of it.
\<close>

record LedgerEntry =
  signature :: string
  memoData :: "string option"

definition getSignaturesForAddress :: "LedgerEntry list \<Rightarrow> nat \<Rightarrow> LedgerEntry list" where
  "getSignaturesForAddress ledger limit = take limit ledger"

definition getTransaction :: "LedgerEntry list \<Rightarrow> string \<Rightarrow> LedgerEntry option" where
  "getTransaction ledger sig = find (\<lambda>tx. signature tx = sig) ledger"

record World =
  ledger :: "LedgerEntry list"
  wallet_publicKey :: "string option"
  clock :: int

subsection \<open>invoice/InvoiceService.ts\<close>

text \<open>The own properties that a spread \<^verbatim>\<open>{...parsed}\<close> copies, in their order.\<close>

definition spread :: "jsvalue \<Rightarrow> (string \<times> jsvalue) list" where
  "spread v =
     (case v of
        JObj ps \<Rightarrow> map (\<lambda>k. (k, obj_get ps k)) (own_keys ps)
      | JArr xs \<Rightarrow> map (\<lambda>i. (dec_digits (int i), xs ! i)) [0..<length xs]
      | JStr t \<Rightarrow> map (\<lambda>i. (dec_digits (int i), JStr [t ! i])) [0..<length t]
      | _ \<Rightarrow> [])"

text \<open>
  The own properties of the input object: the declared ones that are present (an
  optional field that is absent is no property of it), then the others.
\<close>

definition optional_prop :: "string \<Rightarrow> string option \<Rightarrow> (string \<times> jsvalue) list" where
  "optional_prop k v = (case v of None \<Rightarrow> [] | Some x \<Rightarrow> [(k, JStr x)])"

definition input_props :: "InvoiceInput \<Rightarrow> (string \<times> jsvalue) list" where
  "input_props input =
     [(''amount'', JNum (amount input)),
      (''recipientWallet'', JStr (recipientWallet input)),
      (''dueDate'', JNum (dueDate input))]
     @ optional_prop ''description'' (description input)
     @ optional_prop ''issuerName'' (issuerName input)
     @ other_props input"

text \<open>
  The payload \<^verbatim>\<open>{...input, issuerWallet, createdAt}\<close>: every own property of the
  input, then the two properties that the literal names, which replace the value of a
  property of the input that has their name.
\<close>

definition invoice_payload :: "InvoiceInput \<Rightarrow> string \<Rightarrow> int \<Rightarrow> jsvalue" where
  "invoice_payload input issuer now =
     JObj (obj_define
             (obj_define (spread (JObj (input_props input))) ''issuerWallet'' (JStr issuer))
             ''createdAt'' (JNum (of_seconds now)))"

text \<open>
  \<open>createInvoice w input outcome\<close>: \<open>outcome\<close> is what signing, sending and
  confirming the transaction give, the signature or \<open>None\<close> when one of them throws.
  The result is the pair \<open>(invoiceId, txSignature)\<close>.
\<close>

definition createInvoice ::
  "World \<Rightarrow> InvoiceInput \<Rightarrow> string option \<Rightarrow> (error + string \<times> string) \<times> World" where
  "createInvoice w input outcome =
     (case validateInvoiceInput (clock w) input of
        Inl e \<Rightarrow> (Inl e, w)
      | Inr _ \<Rightarrow>
          (case wallet_publicKey w of
             None \<Rightarrow> (Inl (MoviraError WALLET_NOT_CONNECTED ''Wallet not connected''), w)
           | Some issuerWallet \<Rightarrow>
               (case stableStringify (invoice_payload input issuerWallet (unix_now (clock w))) of
                  None \<Rightarrow> (Inl TypeError, w)
                | Some serialized \<Rightarrow>
                    (case outcome of
                       None \<Rightarrow>
                         (Inl (MoviraError TRANSACTION_FAILED ''Failed to submit invoice transaction''), w)
                     | Some sig \<Rightarrow>
                         (Inr (sha256Hex serialized, sig),
                          w\<lparr>ledger := \<lparr>signature = sig, memoData = Some serialized\<rparr> # ledger w\<rparr>)))))"

text \<open>
  Reading a property of a parsed value, \<^verbatim>\<open>parsed.amount\<close>: a \<^verbatim>\<open>TypeError\<close> on
  \<^verbatim>\<open>null\<close>, the own property of an object, \<^verbatim>\<open>undefined\<close> on anything else (none
  of the names read is a property of a string, a number or an array).
\<close>

definition member :: "jsvalue \<Rightarrow> string \<Rightarrow> jsvalue" where
  "member v k = (case v of JObj ps \<Rightarrow> obj_get ps k | _ \<Rightarrow> JUndefined)"

definition canonical_subset :: "jsvalue \<Rightarrow> error + jsvalue" where
  "canonical_subset parsed =
     (if parsed = JNull \<or> parsed = JUndefined then Inl TypeError
      else Inr (JObj [(''amount'', member parsed ''amount''),
                      (''recipientWallet'', member parsed ''recipientWallet''),
                      (''dueDate'', member parsed ''dueDate''),
                      (''description'', member parsed ''description''),
                      (''issuerName'', member parsed ''issuerName''),
                      (''issuerWallet'', member parsed ''issuerWallet''),
                      (''createdAt'', member parsed ''createdAt'')]))"

text \<open>
  From \<open>memoData\<close> to \<open>parsed\<close> and \<open>calcId\<close>: the lines that \<^verbatim>\<open>verifyInvoice\<close>
  has twice, once for a transaction found by its signature and once in the scan. Neither
  copy catches what \<^verbatim>\<open>JSON.parse\<close> or the property reads throw.
\<close>

definition memo_calcId :: "string \<Rightarrow> error + jsvalue \<times> string" where
  "memo_calcId memo =
     (case JSON_parse memo of
        None \<Rightarrow> Inl SyntaxError
      | Some parsed \<Rightarrow>
          (case canonical_subset parsed of
             Inl e \<Rightarrow> Inl e
           | Inr picked \<Rightarrow>
               (case stableStringify picked of
                  None \<Rightarrow> Inl TypeError
                | Some serialized \<Rightarrow> Inr (parsed, sha256Hex serialized))))"

record VerifyResult =
  verified :: bool
  invoice_record :: "jsvalue option"

definition not_verified :: VerifyResult where
  "not_verified = \<lparr>verified = False, invoice_record = None\<rparr>"

definition verified_record :: "jsvalue \<Rightarrow> string \<Rightarrow> string \<Rightarrow> VerifyResult" where
  "verified_record parsed calcId sig =
     \<lparr>verified = True,
      invoice_record =
        Some (JObj (obj_define (obj_define (spread parsed) ''invoiceId'' (JStr calcId))
                      ''txSignature'' (JStr sig)))\<rparr>"

text \<open>The loop over \<open>txs\<close> when only the identifier is given.\<close>

fun scan_for_invoice :: "string \<Rightarrow> LedgerEntry list \<Rightarrow> error + VerifyResult" where
  "scan_for_invoice iid [] = Inr not_verified"
| "scan_for_invoice iid (tx # txs) =
     (case memoData tx of
        None \<Rightarrow> scan_for_invoice iid txs
      | Some memo \<Rightarrow>
          (case memo_calcId memo of
             Inl e \<Rightarrow> Inl e
           | Inr (parsed, calcId) \<Rightarrow>
               if calcId = iid then Inr (verified_record parsed calcId (signature tx))
               else scan_for_invoice iid txs))"

text \<open>An optional string argument that is truthy: given and not empty.\<close>

definition truthy_arg :: "string option \<Rightarrow> string option" where
  "truthy_arg a = (case a of None \<Rightarrow> None | Some t \<Rightarrow> if t = [] then None else Some t)"

definition verifyInvoice ::
  "LedgerEntry list \<Rightarrow> string option \<Rightarrow> string option \<Rightarrow> error + VerifyResult" where
  "verifyInvoice chain invoiceId_opt txSignature_opt =
     (case truthy_arg txSignature_opt of
        Some txSignature \<Rightarrow>
          (case getTransaction chain txSignature of
             None \<Rightarrow> Inr not_verified
           | Some confirmed \<Rightarrow>
               (case memoData confirmed of
                  None \<Rightarrow> Inr not_verified
                | Some memo \<Rightarrow>
                    (case memo_calcId memo of
                       Inl e \<Rightarrow> Inl e
                     | Inr (parsed, calcId) \<Rightarrow>
                         (case truthy_arg invoiceId_opt of
                            None \<Rightarrow> Inr (verified_record parsed calcId txSignature)
                          | Some iid \<Rightarrow>
                              if calcId \<noteq> iid then Inr not_verified
                              else Inr (verified_record parsed calcId txSignature)))))
      | None \<Rightarrow>
          (case truthy_arg invoiceId_opt of
             None \<Rightarrow> Inl (MoviraError INVALID_INPUT ''invoiceId or txSignature required'')
           | Some iid \<Rightarrow> scan_for_invoice iid (getSignaturesForAddress chain 1000)))"

datatype InvoiceStatus = Pending | Verified | Financed | Settled | InvoiceNotFound

text \<open>The loop over \<open>sigs\<close> with its running \<open>status\<close>.\<close>

fun invoice_status_scan :: "string \<Rightarrow> LedgerEntry list \<Rightarrow> InvoiceStatus \<Rightarrow> InvoiceStatus" where
  "invoice_status_scan iid [] status = status"
| "invoice_status_scan iid (s # sigs) status =
     (case memoData s of
        None \<Rightarrow> invoice_status_scan iid sigs status
      | Some memo \<Rightarrow>
          if \<not> str_includes memo iid then invoice_status_scan iid sigs status
          else if str_includes (toLowerCase memo) ''repay'' then Settled
          else if str_includes (toLowerCase memo) ''loan'' then invoice_status_scan iid sigs Financed
          else invoice_status_scan iid sigs status)"

definition getInvoiceStatus :: "LedgerEntry list \<Rightarrow> string \<Rightarrow> error + InvoiceStatus" where
  "getInvoiceStatus chain iid =
     (case verifyInvoice chain (Some iid) None of
        Inl e \<Rightarrow> Inl e
      | Inr verify \<Rightarrow>
          if \<not> verified verify then Inr InvoiceNotFound
          else Inr (invoice_status_scan iid (getSignaturesForAddress chain 200) Verified))"

subsection \<open>loan/LoanService.ts\<close>

record LoanRequest =
  invoiceId :: string
  requestedAmount :: number
  loanDurationDays :: number
  lenderWallet :: "string option"

definition loan_payload :: "LoanRequest \<Rightarrow> string \<Rightarrow> int \<Rightarrow> jsvalue" where
  "loan_payload input borrower now =
     JObj ([(''invoiceId'', JStr (invoiceId input)),
            (''requestedAmount'', JNum (requestedAmount input)),
            (''loanDurationDays'', JNum (loanDurationDays input))]
           @ optional_prop ''lenderWallet'' (lenderWallet input)
           @ [(''borrowerWallet'', JStr borrower), (''createdAt'', JNum (of_seconds now))])"

definition requestLoan ::
  "World \<Rightarrow> LoanRequest \<Rightarrow> string option \<Rightarrow> (error + string \<times> string) \<times> World" where
  "requestLoan w input outcome =
     (case wallet_publicKey w of
        None \<Rightarrow> (Inl (MoviraError WALLET_NOT_CONNECTED ''Wallet not connected''), w)
      | Some borrowerWallet \<Rightarrow>
          if invoiceId input = [] then (Inl (MoviraError INVALID_INPUT ''invoiceId required''), w)
          else if \<not> num_greater (requestedAmount input) (Finite 0 0) then
            (Inl (MoviraError INVALID_INPUT ''requestedAmount must be > 0''), w)
          else
            (case stableStringify (loan_payload input borrowerWallet (unix_now (clock w))) of
               None \<Rightarrow> (Inl TypeError, w)
             | Some serialized \<Rightarrow>
                 (case outcome of
                    None \<Rightarrow>
                      (Inl (MoviraError TRANSACTION_FAILED ''Failed to submit loan request''), w)
                  | Some sig \<Rightarrow>
                      (Inr (sha256Hex serialized, sig),
                       w\<lparr>ledger := \<lparr>signature = sig, memoData = Some serialized\<rparr> # ledger w\<rparr>))))"

datatype LoanStatus = Requested | Active | Repaid | Defaulted | LoanNotFound

text \<open>The loop over \<open>sigs\<close> with its variables \<open>found\<close> and \<open>status\<close>.\<close>

fun loan_status_scan :: "string \<Rightarrow> LedgerEntry list \<Rightarrow> bool \<Rightarrow> LoanStatus \<Rightarrow> LoanStatus" where
  "loan_status_scan loanId [] found status = (if found then status else LoanNotFound)"
| "loan_status_scan loanId (s # sigs) found status =
     (case memoData s of
        None \<Rightarrow> loan_status_scan loanId sigs found status
      | Some memo \<Rightarrow>
          if \<not> str_includes memo loanId then loan_status_scan loanId sigs found status
          else if str_includes (toLowerCase memo) ''repay'' then Repaid
          else if str_includes (toLowerCase memo) ''loan'' \<or> str_includes (toLowerCase memo) ''lend''
          then loan_status_scan loanId sigs True Active
          else loan_status_scan loanId sigs True Requested)"

definition getLoanStatus :: "LedgerEntry list \<Rightarrow> string \<Rightarrow> LoanStatus" where
  "getLoanStatus chain loanId =
     loan_status_scan loanId (getSignaturesForAddress chain 1000) False LoanNotFound"

subsection \<open>credit/CreditService.ts\<close>

text \<open>
  What \<^verbatim>\<open>fetch\<close> gives for a request: it throws, or it returns a response with its
  \<^verbatim>\<open>ok\<close> flag and what \<^verbatim>\<open>res.json()\<close> yields (\<open>None\<close> when that throws). The
  network is a function from the URL and the request body to that.
\<close>

datatype fetch_result = FetchThrows | Response bool "jsvalue option"

text \<open>Truthiness, as \<^verbatim>\<open>&&\<close> tests it.\<close>

fun truthy :: "jsvalue \<Rightarrow> bool" where
  "truthy JUndefined = False"
| "truthy JNull = False"
| "truthy (JBool b) = b"
| "truthy (JNum (Finite m e)) = (m \<noteq> 0)"
| "truthy (JNum NaN) = False"
| "truthy (JNum _) = True"
| "truthy (JStr t) = (t \<noteq> [])"
| "truthy _ = True"

text \<open>\<^verbatim>\<open>payload?.borrowingPower && payload?.riskTier && payload?.expectedLoanTerms\<close>\<close>

definition shape_valid :: "jsvalue \<Rightarrow> bool" where
  "shape_valid payload =
     (truthy (member payload ''borrowingPower'') \<and> truthy (member payload ''riskTier'')
      \<and> truthy (member payload ''expectedLoanTerms''))"

fun try_oracles :: "(string \<Rightarrow> string \<Rightarrow> fetch_result) \<Rightarrow> string \<Rightarrow> string list \<Rightarrow> jsvalue option" where
  "try_oracles fetch body [] = None"
| "try_oracles fetch body (url # urls) =
     (case fetch url body of
        FetchThrows \<Rightarrow> try_oracles fetch body urls
      | Response ok json \<Rightarrow>
          if \<not> ok then try_oracles fetch body urls
          else
            (case json of
               None \<Rightarrow> try_oracles fetch body urls
             | Some payload \<Rightarrow>
                 if shape_valid payload then Some payload else try_oracles fetch body urls))"

text \<open>
  \<open>simulateCredit endpoints fetch evaluator invoice\<close>: \<open>endpoints\<close> is
  \<^verbatim>\<open>this.oracleEndpoints\<close>, \<open>evaluator\<close> the evaluator of the \<^verbatim>\<open>RiskModel\<close>
  (\<open>Inl\<close> when it throws).
\<close>

definition request_body :: "jsvalue \<Rightarrow> string" where
  "request_body invoice =
     (case JSON_stringify (JObj [(''invoiceId'', member invoice ''invoiceId'')]) of
        None \<Rightarrow> [] | Some t \<Rightarrow> t)"

definition simulateCredit ::
  "string list option \<Rightarrow> (string \<Rightarrow> string \<Rightarrow> fetch_result) \<Rightarrow> (jsvalue \<Rightarrow> error + jsvalue)
   \<Rightarrow> jsvalue \<Rightarrow> error + jsvalue" where
  "simulateCredit oracleEndpoints fetch evaluator invoice =
     (case (case oracleEndpoints of
              None \<Rightarrow> None
            | Some urls \<Rightarrow> try_oracles fetch (request_body invoice) urls) of
        Some payload \<Rightarrow> Inr payload
      | None \<Rightarrow>
          (case evaluator invoice of
             Inl e \<Rightarrow> Inl (MoviraError UNKNOWN ''Failed to evaluate credit'')
           | Inr result \<Rightarrow> Inr result))"

section \<open>Notions used to state and prove the properties\<close>

text \<open>
  A value is well formed when no object of it has a key twice, as no JavaScript object
  has.
\<close>

fun wf_value :: "jsvalue \<Rightarrow> bool" where
  "wf_value (JArr xs) = list_all wf_value xs"
| "wf_value (JObj ps) = (distinct (map fst ps) \<and> list_all (\<lambda>p. wf_value (snd p)) ps)"
| "wf_value _ = True"

text \<open>
  The JSON value that the text of a value denotes, which is what \<^verbatim>\<open>JSON.parse\<close>
  returns for \<^verbatim>\<open>JSON.stringify(v)\<close>: the properties in the order of \<open>own_keys\<close>
  without those that are \<^verbatim>\<open>undefined\<close>, \<^verbatim>\<open>null\<close> for \<^verbatim>\<open>undefined\<close> in an array
  and for a number that is not finite, a date as its string.
\<close>

function revive :: "jsvalue \<Rightarrow> jsvalue" where
  "revive (JArr xs) = JArr (map (\<lambda>x. if x = JUndefined then JNull else revive x) xs)"
| "revive (JObj ps) =
     JObj (concat (map (\<lambda>k. if obj_get ps k = JUndefined then []
                             else [(k, revive (obj_get ps k))]) (own_keys ps)))"
| "revive (JNum n) = (case n of Finite m e \<Rightarrow> JNum (norm_number m e) | _ \<Rightarrow> JNull)"
| "revive (JDate d) = (case d of None \<Rightarrow> JNull | Some s \<Rightarrow> JStr s)"
| "revive JUndefined = JUndefined"
| "revive JNull = JNull"
| "revive (JBool b) = JBool b"
| "revive (JStr s) = JStr s"
  by pat_completeness auto
termination
proof (relation "measure size", goal_cases)
  case 1
  then show ?case by simp
next
  case (2 xs x)
  then show ?case by (simp add: less_Suc_eq_le size_list_estimation')
next
  case (3 ps k)
  then show ?case using obj_get_size [of k ps] by simp
qed

text \<open>A text after which a number ends: it is empty or starts with no part of a number.\<close>

definition num_end :: "string \<Rightarrow> bool" where
  "num_end r = (case r of [] \<Rightarrow> True
                | c # _ \<Rightarrow> \<not> is_digit c \<and> c \<noteq> CHR ''.'' \<and> c \<noteq> CHR ''e'' \<and> c \<noteq> CHR ''E'')"

text \<open>
  \<open>parses_as t v\<close>: the parser reads the text \<open>t\<close> as the value \<open>v\<close>, whatever
  follows it, with any bound from the length of \<open>t\<close> on.
\<close>

definition parses_as :: "string \<Rightarrow> jsvalue \<Rightarrow> bool" where
  "parses_as t v \<longleftrightarrow>
     t \<noteq> [] \<and> \<not> is_ws (hd t)
     \<and> (\<forall>n r. length t \<le> n \<longrightarrow> num_end r \<longrightarrow> parse_value n (t @ r) = Some (v, r))"

text \<open>
  The elements of an array and the members of an object as \<^verbatim>\<open>JSON.stringify\<close> writes
  them, each with the value it is read back as.
\<close>

definition element_text :: "jsvalue \<Rightarrow> string" where
  "element_text x = (case JSON_stringify x of None \<Rightarrow> ''null'' | Some t \<Rightarrow> t)"

definition element_value :: "jsvalue \<Rightarrow> jsvalue" where
  "element_value x = (if x = JUndefined then JNull else revive x)"

definition member_text :: "string \<times> string \<times> jsvalue \<Rightarrow> string" where
  "member_text m = (case m of (k, t, v) \<Rightarrow> QuoteJSONString k @ '':'' @ t)"

definition member_value :: "string \<times> string \<times> jsvalue \<Rightarrow> string \<times> jsvalue" where
  "member_value m = (case m of (k, t, v) \<Rightarrow> (k, v))"

definition members_of ::
  "(string \<times> jsvalue) list \<Rightarrow> string list \<Rightarrow> (string \<times> string \<times> jsvalue) list" where
  "members_of ps ks =
     concat (map (\<lambda>k. case JSON_stringify (obj_get ps k) of None \<Rightarrow> []
                        | Some t \<Rightarrow> [(k, t, revive (obj_get ps k))]) ks)"

text \<open>
  Two values are equal as key/value structures: the same scalar, arrays of the same
  length with equal elements in order, objects with the same keys and equal values
  under each key, in whatever order the keys were inserted.
\<close>

function (sequential) deep_equal :: "jsvalue \<Rightarrow> jsvalue \<Rightarrow> bool" where
  "deep_equal (JArr xs) (JArr ys) = list_all2 deep_equal xs ys"
| "deep_equal (JObj ps) (JObj qs) =
     (set (map fst ps) = set (map fst qs)
      \<and> (\<forall>k \<in> set (map fst ps). deep_equal (obj_get ps k) (obj_get qs k)))"
| "deep_equal a b = (a = b)"
  by pat_completeness auto
termination
proof (relation "measure (\<lambda>(a, b). size a)", goal_cases)
  case 1
  then show ?case by simp
next
  case (2 xs ys x y)
  then show ?case by (simp add: less_Suc_eq_le size_list_estimation')
next
  case (3 ps qs k)
  then show ?case using obj_get_size [of k ps] by simp
qed

text \<open>
  An invoice for the examples: 1.5 SOL, due a month after its creation at second
  1700000000, and the memo that its creation submits.
\<close>

definition demo_input :: InvoiceInput where
  "demo_input =
     \<lparr>amount = Finite 15 (-1),
      recipientWallet = ''BBBBBBBBBBBBBBBBBBBBBBBBBBBBBBBBBBBBBBBBBBBB'',
      dueDate = Finite 1702592000 0,
      description = Some ''Invoice for services'',
      issuerName = None, other_props = []\<rparr>"

definition demo_wallet :: string where
  "demo_wallet = ''CCCCCCCCCCCCCCCCCCCCCCCCCCCCCCCCCCCCCCCCCCCC''"

definition demo_world :: World where
  "demo_world = \<lparr>ledger = [], wallet_publicKey = Some demo_wallet, clock = 1700000000123\<rparr>"

definition demo_memo :: string where
  \<open>demo_memo = ''{"amount":1.5,"createdAt":1700000000,"description":"Invoice for services","dueDate":1702592000,"issuerWallet":"CCCCCCCCCCCCCCCCCCCCCCCCCCCCCCCCCCCCCCCCCCCC","recipientWallet":"BBBBBBBBBBBBBBBBBBBBBBBBBBBBBBBBBBBBBBBBBBBB"}''\<close>

definition demo_id :: string where
  "demo_id = sha256Hex demo_memo"

text \<open>The digits of a digest: 0 to 9 and a to f.\<close>

definition is_lower_hex :: "char \<Rightarrow> bool" where
  "is_lower_hex c = (is_digit c \<or> (CHR ''a'' \<le> c \<and> c \<le> CHR ''f''))"

text \<open>
  The longest run of digest digits in a string: \<open>run_scan s cur best\<close> goes through
  \<open>s\<close> with the length \<open>cur\<close> of the run it is in and the longest length \<open>best\<close>
  seen before it.
\<close>

fun run_scan :: "string \<Rightarrow> nat \<Rightarrow> nat \<Rightarrow> nat" where
  "run_scan [] cur best = max cur best"
| "run_scan (c # cs) cur best =
     (if is_lower_hex c then run_scan cs (Suc cur) best else run_scan cs 0 (max cur best))"

definition longest_hex_run :: "string \<Rightarrow> nat" where
  "longest_hex_run s = run_scan s 0 0"

text \<open>
  The ledger after the invoice of the examples was created, a loan requested against it
  100 seconds later, the memo that the request submits, and memos of a financing, of a
  lending and of a repayment as a counterparty would write them.
\<close>

definition demo_parsed :: jsvalue where
  "demo_parsed = revive (sortObject (invoice_payload demo_input demo_wallet 1700000000))"

definition demo_invoice_entry :: LedgerEntry where
  "demo_invoice_entry = \<lparr>signature = ''sig1'', memoData = Some demo_memo\<rparr>"

definition demo_loan :: LoanRequest where
  "demo_loan =
     \<lparr>invoiceId = ''57740619cef8cd49bcb3c295e76ed5a22b0942ecfeac69989606726e39d7b7f9'',
      requestedAmount = Finite 1 0,
      loanDurationDays = Finite 60 0,
      lenderWallet = None\<rparr>"

definition demo_world2 :: World where
  "demo_world2 =
     \<lparr>ledger = [demo_invoice_entry], wallet_publicKey = Some demo_wallet, clock = 1700000100456\<rparr>"

definition demo_loan_memo :: string where
  \<open>demo_loan_memo = ''{"borrowerWallet":"CCCCCCCCCCCCCCCCCCCCCCCCCCCCCCCCCCCCCCCCCCCC","createdAt":1700000100,"invoiceId":"57740619cef8cd49bcb3c295e76ed5a22b0942ecfeac69989606726e39d7b7f9","loanDurationDays":60,"requestedAmount":1}''\<close>

definition demo_loan_id :: string where
  "demo_loan_id = sha256Hex demo_loan_memo"

definition demo_loan_entry :: LedgerEntry where
  "demo_loan_entry = \<lparr>signature = ''sig2'', memoData = Some demo_loan_memo\<rparr>"

definition demo_repay_memo :: string where
  \<open>demo_repay_memo = ''{"type":"repay","invoiceId":"57740619cef8cd49bcb3c295e76ed5a22b0942ecfeac69989606726e39d7b7f9"}''\<close>

definition demo_repay_entry :: LedgerEntry where
  "demo_repay_entry = \<lparr>signature = ''sig3'', memoData = Some demo_repay_memo\<rparr>"

definition demo_lend_entry :: LedgerEntry where
  \<open>demo_lend_entry =
     \<lparr>signature = ''sig4'',
      memoData = Some ''{"type":"lend","loanId":"f2cfab7ddf5fa954443fe96c2726f85283016473ae7cd12ea0896894664a85bd"}''\<rparr>\<close>

definition demo_note_entry :: LedgerEntry where
  \<open>demo_note_entry =
     \<lparr>signature = ''sig5'',
      memoData = Some ''{"note":"f2cfab7ddf5fa954443fe96c2726f85283016473ae7cd12ea0896894664a85bd"}''\<rparr>\<close>

text \<open>
  The invoice of the examples with one more property, a reference of the issuer, the
  memo that its creation submits and the entry that it writes.
\<close>

definition noted_input :: InvoiceInput where
  "noted_input = demo_input\<lparr>other_props := [(''reference'', JStr ''PO-7'')]\<rparr>"

definition noted_memo :: string where
  \<open>noted_memo = ''{"amount":1.5,"createdAt":1700000000,"description":"Invoice for services","dueDate":1702592000,"issuerWallet":"CCCCCCCCCCCCCCCCCCCCCCCCCCCCCCCCCCCCCCCCCCCC","recipientWallet":"BBBBBBBBBBBBBBBBBBBBBBBBBBBBBBBBBBBBBBBBBBBB","reference":"PO-7"}''\<close>

definition noted_id :: string where
  "noted_id = sha256Hex noted_memo"

definition noted_entry :: LedgerEntry where
  "noted_entry = \<lparr>signature = ''sig6'', memoData = Some noted_memo\<rparr>"

text \<open>Entries that hold no record: bytes that are not JSON, the JSON text of null, no memo.\<close>

definition corrupt_entry :: LedgerEntry where
  "corrupt_entry = \<lparr>signature = ''sig0'', memoData = Some ''hello''\<rparr>"

definition null_entry :: LedgerEntry where
  "null_entry = \<lparr>signature = ''sig0'', memoData = Some ''null''\<rparr>"

definition old_entry :: LedgerEntry where
  "old_entry = \<lparr>signature = ''old'', memoData = None\<rparr>"

text \<open>
  An entry of the ledger that mentions the invoice \<open>iid\<close> with a word of repayment, or
  with a word of lending, as the scan of \<^verbatim>\<open>getInvoiceStatus\<close> tests it.
\<close>

definition repay_entry :: "string \<Rightarrow> LedgerEntry \<Rightarrow> bool" where
  "repay_entry iid tx =
     (case memoData tx of None \<Rightarrow> False
      | Some memo \<Rightarrow> str_includes memo iid \<and> str_includes (toLowerCase memo) ''repay'')"

definition loan_entry :: "string \<Rightarrow> LedgerEntry \<Rightarrow> bool" where
  "loan_entry iid tx =
     (case memoData tx of None \<Rightarrow> False
      | Some memo \<Rightarrow> str_includes memo iid \<and> str_includes (toLowerCase memo) ''loan'')"

text \<open>
  Two results of a credit simulation. The first is what \<^verbatim>\<open>defaultEvaluator\<close> computes
  for an invoice due in a year or more: \<^verbatim>\<open>base\<close> is 0, so the borrowing power is 0, the
  tier D, the smallest amount 0.01, the duration 180 days and the rate 10 + 20. The second
  stands for what an evaluator given to \<^verbatim>\<open>RiskModel\<close> returns.
\<close>

definition zero_power_payload :: jsvalue where
  "zero_power_payload =
     JObj [(''borrowingPower'', JNum (Finite 0 0)), (''riskTier'', JStr ''D''),
           (''expectedLoanTerms'',
            JObj [(''maxAmount'', JNum (Finite 0 0)), (''minAmount'', JNum (Finite 1 (-2))),
                  (''maxDurationDays'', JNum (Finite 180 0)),
                  (''aprPercent'', JNum (Finite 30 0))])]"

definition local_payload :: jsvalue where
  "local_payload =
     JObj [(''borrowingPower'', JNum (Finite 72 0)), (''riskTier'', JStr ''B''),
           (''expectedLoanTerms'',
            JObj [(''maxAmount'', JNum (Finite 72 0)), (''minAmount'', JNum (Finite 72 (-1))),
                  (''maxDurationDays'', JNum (Finite 36 0)),
                  (''aprPercent'', JNum (Finite 15 0))])]"

section \<open>JSON.parse reads back what JSON.stringify writes\<close>

lemma nat_less_16_cases:
  "d < 16 \<Longrightarrow> d \<in> {0, 1, 2, 3, 4, 5, 6, 7, 8, 9, 10, 11, 12, 13, 14, 15 :: nat}"
  by (simp only: insert_iff empty_iff) arith

lemma hex_char_roundtrip:
  assumes "d < 16"
  shows "is_hex (hex_char d)" "hex_val (hex_char d) = d"
  using nat_less_16_cases [OF assms]
  by (auto simp: hex_char_def is_hex_def hex_val_def is_digit_def)

lemma parse_string_plain:
  "c \<noteq> CHR 0x22 \<Longrightarrow> c \<noteq> CHR 0x5C \<Longrightarrow> \<not> of_char c < (32::nat)
   \<Longrightarrow> parse_string (c # t) = cons_result c (parse_string t)"
  by simp

lemma parse_string_escape:
  "unescape e = Some d \<Longrightarrow> e \<noteq> CHR ''u'' \<Longrightarrow> parse_string (CHR 0x5C # e # t) = cons_result d (parse_string t)"
  by simp

lemma parse_string_u00:
  "is_hex h3 \<Longrightarrow> is_hex h4 \<Longrightarrow>
   parse_string (CHR 0x5C # CHR ''u'' # CHR ''0'' # CHR ''0'' # h3 # h4 # t)
     = cons_result (char_of (16 * hex_val h3 + hex_val h4)) (parse_string t)"
  by (simp add: is_hex_def is_digit_def hex_val_def)

lemma parse_string_close: "parse_string (CHR 0x22 # t) = Some ([], t)"
  by simp

lemma parse_string_quote_char:
  "parse_string (quote_char c @ t) = cons_result c (parse_string t)"
proof (cases "of_char c < (32::nat)")
  case False
  then show ?thesis
    unfolding quote_char_def
    by (simp add: unescape_def del: parse_string.simps)
       (auto simp: parse_string_plain parse_string_escape unescape_def simp del: parse_string.simps)
next
  case True
  let ?n = "of_char c :: nat"
  have h3: "is_hex (hex_char (?n div 16))" "hex_val (hex_char (?n div 16)) = ?n div 16"
    using True by (auto intro!: hex_char_roundtrip)
  have h4: "is_hex (hex_char (?n mod 16))" "hex_val (hex_char (?n mod 16)) = ?n mod 16"
    by (auto intro!: hex_char_roundtrip)
  have u: "parse_string (CHR 0x5C # CHR ''u'' # CHR ''0'' # CHR ''0''
             # hex_char (?n div 16) # hex_char (?n mod 16) # t) = cons_result c (parse_string t)"
    using h3 h4 by (simp add: parse_string_u00 del: parse_string.simps)
  have q: "c \<noteq> CHR 0x22" "c \<noteq> CHR 0x5C" using True by auto
  consider "c = CHR 0x08" | "c = CHR 0x09" | "c = CHR 0x0A" | "c = CHR 0x0C" | "c = CHR 0x0D"
    | "c \<noteq> CHR 0x08" "c \<noteq> CHR 0x09" "c \<noteq> CHR 0x0A" "c \<noteq> CHR 0x0C" "c \<noteq> CHR 0x0D"
    by blast
  then show ?thesis
  proof cases
    case 6
    then have "quote_char c = [CHR 0x5C, CHR ''u'', CHR ''0'', CHR ''0'',
         hex_char (?n div 16), hex_char (?n mod 16)]"
      using q True by (simp add: quote_char_def)
    then show ?thesis using u by (simp del: parse_string.simps)
  qed (simp_all add: quote_char_def parse_string_escape unescape_def del: parse_string.simps)
qed

lemma parse_string_quoted: "parse_string (concat (map quote_char s) @ CHR 0x22 # r) = Some (s, r)"
  by (induction s)
     (simp_all add: parse_string_quote_char parse_string_close cons_result_def del: parse_string.simps)

lemma nat_less_10_cases:
  "d < 10 \<Longrightarrow> d \<in> {0, 1, 2, 3, 4, 5, 6, 7, 8, 9 :: nat}"
  by (simp only: insert_iff empty_iff) arith

lemma digit_char_props:
  assumes "d < 10"
  shows "is_digit (digit_char d)" "digit_val (digit_char d) = d" "digit_char d = CHR ''0'' \<longleftrightarrow> d = 0"
  using nat_less_10_cases [OF assms]
  by (auto simp: digit_char_def is_digit_def digit_val_def)

lemma dec_value_snoc: "dec_value (xs @ [c]) = 10 * dec_value xs + int (digit_val c)"
  by (simp add: dec_value_def)

lemma dec_value_append: "dec_value (xs @ ys) = dec_value xs * 10 ^ length ys + dec_value ys"
proof (induction ys rule: rev_induct)
  case Nil
  then show ?case by (simp add: dec_value_def)
next
  case (snoc c ys)
  have "dec_value (xs @ ys @ [c]) = 10 * dec_value (xs @ ys) + int (digit_val c)"
    using dec_value_snoc [of "xs @ ys" c] by simp
  then show ?case using snoc by (simp add: dec_value_snoc algebra_simps)
qed

lemma dec_value_zeros: "dec_value (replicate z CHR ''0'') = 0"
  by (induction z) (simp_all add: dec_value_def digit_val_def replicate_append_same [symmetric] del: replicate_Suc)

lemma dec_digits_props:
  "0 \<le> n \<Longrightarrow> list_all is_digit (dec_digits n) \<and> dec_digits n \<noteq> []
     \<and> dec_value (dec_digits n) = n \<and> (0 < n \<longrightarrow> hd (dec_digits n) \<noteq> CHR ''0'')"
proof (induction n rule: dec_digits.induct)
  case (1 n)
  show ?case
  proof (cases "n < 10")
    case True
    with 1(2) have d: "nat n < 10" by simp
    have "dec_digits n = [digit_char (nat n)]" using True by (simp add: dec_digits.simps)
    then show ?thesis using digit_char_props [OF d] 1(2) by (simp add: dec_value_def)
  next
    case False
    then have ih: "list_all is_digit (dec_digits (n div 10)) \<and> dec_digits (n div 10) \<noteq> []
       \<and> dec_value (dec_digits (n div 10)) = n div 10 \<and> (0 < n div 10 \<longrightarrow> hd (dec_digits (n div 10)) \<noteq> CHR ''0'')"
      using 1 by simp
    have d: "nat (n mod 10) < 10" by simp
    have eq: "dec_digits n = dec_digits (n div 10) @ [digit_char (nat (n mod 10))]"
      using False by (subst dec_digits.simps) simp
    have pos: "0 < n div 10" using False by simp
    show ?thesis using ih digit_char_props [OF d] pos
      by (simp add: eq dec_value_snoc)
  qed
qed

lemma span_digits:
  assumes "list_all is_digit ds" "r = [] \<or> \<not> is_digit (hd r)"
  shows "takeWhile is_digit (ds @ r) = ds" "dropWhile is_digit (ds @ r) = r"
proof -
  have a: "\<forall>x\<in>set ds. is_digit x" using assms(1) by (simp add: list_all_iff)
  have t: "takeWhile is_digit r = []" using assms(2) by (cases r) auto
  have d: "dropWhile is_digit r = r" using assms(2) by (cases r) auto
  show "takeWhile is_digit (ds @ r) = ds" using a t by (simp add: takeWhile_append2)
  show "dropWhile is_digit (ds @ r) = r" using a d by (simp add: dropWhile_append2)
qed

lemma strip_zeros_shift:
  "0 < a \<Longrightarrow> strip_zeros (a * 10 ^ j) e = strip_zeros a (e + int j)"
proof (induction j arbitrary: e)
  case 0
  then show ?case by simp
next
  case (Suc j)
  have "strip_zeros (a * 10 ^ Suc j) e = strip_zeros (a * 10 ^ j) (e + 1)"
    using Suc.prems by (subst strip_zeros.simps) simp
  then show ?case using Suc.IH [OF Suc.prems, of "e + 1"] by (simp add: algebra_simps)
qed

lemma strip_zeros_spec:
  "0 < a \<Longrightarrow> strip_zeros a e = (s, e') \<Longrightarrow>
     0 < s \<and> s mod 10 \<noteq> 0 \<and> (\<exists>j. a = s * 10 ^ j \<and> e' = e + int j)"
proof (induction a e arbitrary: s e' rule: strip_zeros.induct)
  case (1 a e)
  show ?case
  proof (cases "a mod 10 = 0")
    case True
    then have "strip_zeros a e = strip_zeros (a div 10) (e + 1)"
      using 1(2) by (subst strip_zeros.simps) simp
    with 1(3) have st: "strip_zeros (a div 10) (e + 1) = (s, e')" by simp
    have pos: "0 < a div 10" using True 1(2) by presburger
    from 1(1) [OF _ pos st] True 1(2)
    obtain j where j: "0 < s" "s mod 10 \<noteq> 0" "a div 10 = s * 10 ^ j" "e' = e + 1 + int j" by auto
    have "a = s * 10 ^ Suc j" using j(3) True by auto
    then show ?thesis using j by (intro conjI exI [of _ "Suc j"]) auto
  next
    case False
    then have "strip_zeros a e = (a, e)" by (subst strip_zeros.simps) simp
    with 1(3) have "s = a" "e' = e" by simp_all
    then show ?thesis using False 1(2) by (auto intro: exI [of _ 0])
  qed
qed

lemma strip_zeros_fix: "s mod 10 \<noteq> 0 \<Longrightarrow> strip_zeros s e = (s, e)"
  by (subst strip_zeros.simps) simp

lemma norm_number_shift: "norm_number (m * 10 ^ j) e = norm_number m (e + int j)"
proof (cases "m = 0")
  case True
  then show ?thesis by (simp add: norm_number_def)
next
  case False
  then have "strip_zeros \<bar>m * 10 ^ j\<bar> e = strip_zeros \<bar>m\<bar> (e + int j)"
    using strip_zeros_shift [of "\<bar>m\<bar>" j e] by (simp add: abs_mult)
  moreover have "m * 10 ^ j < 0 \<longleftrightarrow> m < 0" by (simp add: mult_less_0_iff)
  ultimately show ?thesis using False by (simp add: norm_number_def)
qed

lemma num_end_hd: "num_end r \<Longrightarrow> r = [] \<or> \<not> is_digit (hd r)"
  by (cases r) (auto simp: num_end_def)

lemma parse_fraction_end: "num_end r \<Longrightarrow> parse_fraction r = Some ([], r)"
  by (cases r) (auto simp: num_end_def parse_fraction_def)

lemma parse_exponent_end: "num_end r \<Longrightarrow> parse_exponent r = Some (0, r)"
  by (cases r) (auto simp: num_end_def parse_exponent_def)

lemma parse_fraction_digits:
  assumes "list_all is_digit fp" "fp \<noteq> []" "r = [] \<or> \<not> is_digit (hd r)"
  shows "parse_fraction (CHR ''.'' # fp @ r) = Some (fp, r)"
  using assms span_digits [OF assms(1,3)] by (simp add: parse_fraction_def)

lemma parse_fraction_e: "parse_fraction (CHR ''e'' # t) = Some ([], CHR ''e'' # t)"
  by (simp add: parse_fraction_def)

lemma parse_exponent_digits:
  assumes "r = [] \<or> \<not> is_digit (hd r)"
  shows "parse_exponent (CHR ''e'' # (if x < 0 then ''-'' else ''+'') @ dec_digits \<bar>x\<bar> @ r) = Some (x, r)"
proof -
  have p: "list_all is_digit (dec_digits \<bar>x\<bar>)" "dec_digits \<bar>x\<bar> \<noteq> []" "dec_value (dec_digits \<bar>x\<bar>) = \<bar>x\<bar>"
    using dec_digits_props [of "\<bar>x\<bar>"] by simp_all
  show ?thesis
    using p span_digits [OF p(1) assms]
    by (auto simp: parse_exponent_def)
qed

lemma parse_unsigned_plain:
  assumes "list_all is_digit ip" "ip \<noteq> []" "hd ip \<noteq> CHR ''0''" "num_end r"
  shows "parse_unsigned neg (ip @ r) = Some (norm_number ((if neg then -1 else 1) * dec_value ip) 0, r)"
  using assms span_digits [OF assms(1) num_end_hd [OF assms(4)]]
  by (simp add: parse_unsigned_def parse_fraction_end parse_exponent_end)

lemma parse_unsigned_point:
  assumes "list_all is_digit ip" "ip \<noteq> []" "length ip = 1 \<or> hd ip \<noteq> CHR ''0''"
    "list_all is_digit fp" "fp \<noteq> []" "num_end r"
  shows "parse_unsigned neg (ip @ CHR ''.'' # fp @ r)
     = Some (norm_number ((if neg then -1 else 1) * dec_value (ip @ fp)) (- int (length fp)), r)"
proof -
  have nd: "CHR ''.'' # fp @ r = [] \<or> \<not> is_digit (hd (CHR ''.'' # fp @ r))"
    by (simp add: is_digit_def)
  show ?thesis
    using assms(2,3) span_digits [OF assms(1) nd]
      parse_fraction_digits [OF assms(4,5) num_end_hd [OF assms(6)]]
    by (auto simp: parse_unsigned_def parse_exponent_end [OF assms(6)])
qed

lemma parse_unsigned_exp:
  assumes "list_all is_digit ip" "length ip = 1" "r = [] \<or> \<not> is_digit (hd r)"
  shows "parse_unsigned neg (ip @ CHR ''e'' # (if x < 0 then ''-'' else ''+'') @ dec_digits \<bar>x\<bar> @ r)
     = Some (norm_number ((if neg then -1 else 1) * dec_value ip) x, r)"
proof -
  let ?t = "CHR ''e'' # (if x < 0 then ''-'' else ''+'') @ dec_digits \<bar>x\<bar> @ r"
  have nd: "?t = [] \<or> \<not> is_digit (hd ?t)" by (simp add: is_digit_def)
  have ne: "ip \<noteq> []" using assms(2) by auto
  show ?thesis
    using ne assms(2) span_digits [OF assms(1) nd] parse_exponent_digits [OF assms(3), of x]
    by (simp add: parse_unsigned_def parse_fraction_e del: append.simps)
qed

lemma parse_unsigned_point_exp:
  assumes "list_all is_digit ip" "length ip = 1" "list_all is_digit fp" "fp \<noteq> []"
    "r = [] \<or> \<not> is_digit (hd r)"
  shows "parse_unsigned neg (ip @ CHR ''.'' # fp @ CHR ''e'' # (if x < 0 then ''-'' else ''+'') @ dec_digits \<bar>x\<bar> @ r)
     = Some (norm_number ((if neg then -1 else 1) * dec_value (ip @ fp)) (x - int (length fp)), r)"
proof -
  let ?e = "CHR ''e'' # (if x < 0 then ''-'' else ''+'') @ dec_digits \<bar>x\<bar> @ r"
  let ?t = "CHR ''.'' # fp @ ?e"
  have nd: "?t = [] \<or> \<not> is_digit (hd ?t)" by (simp add: is_digit_def)
  have nd2: "?e = [] \<or> \<not> is_digit (hd ?e)" by (simp add: is_digit_def)
  have ne: "ip \<noteq> []" using assms(2) by auto
  show ?thesis
    using ne assms(2) span_digits [OF assms(1) nd] parse_fraction_digits [OF assms(3,4) nd2]
      parse_exponent_digits [OF assms(5), of x]
    by (simp add: parse_unsigned_def del: append.simps)
qed

lemma list_all_take_drop:
  "list_all P xs \<Longrightarrow> list_all P (take n xs) \<and> list_all P (drop n xs)"
  by (auto simp: list_all_iff dest: in_set_takeD in_set_dropD)

lemma parse_unsigned_digits:
  assumes ds: "list_all is_digit ds" "ds \<noteq> []" "hd ds \<noteq> CHR ''0''" and r: "num_end r"
  shows "parse_unsigned neg (digits_toString ds n @ r)
     = Some (norm_number ((if neg then -1 else 1) * dec_value ds) (n - int (length ds)), r)"
proof -
  let ?k = "int (length ds)"
  let ?sg = "if neg then -1 else 1 :: int"
  have k1: "1 \<le> ?k" using ds(2) by (cases ds) auto
  consider (plain) "?k \<le> n" "n \<le> 21"
    | (point) "n < ?k" "0 < n" "n \<le> 21"
    | (small) "n < ?k" "-6 < n" "n \<le> 0"
    | (exp1) "\<not> (?k \<le> n \<and> n \<le> 21)" "\<not> (0 < n \<and> n \<le> 21)" "\<not> (-6 < n \<and> n \<le> 0)" "?k = 1"
    | (exp2) "\<not> (?k \<le> n \<and> n \<le> 21)" "\<not> (0 < n \<and> n \<le> 21)" "\<not> (-6 < n \<and> n \<le> 0)" "?k \<noteq> 1"
    using k1 by linarith
  then show ?thesis
  proof cases
    case plain
    let ?ip = "ds @ replicate (nat (n - ?k)) CHR ''0''"
    have t: "digits_toString ds n = ?ip" using plain by (simp add: digits_toString_def)
    have ip: "list_all is_digit ?ip" "?ip \<noteq> []" "hd ?ip \<noteq> CHR ''0''"
      using ds by (auto simp: is_digit_def list_all_iff)
    have v: "?sg * dec_value ?ip = (?sg * dec_value ds) * 10 ^ nat (n - ?k)"
      by (simp add: dec_value_append dec_value_zeros)
    have "parse_unsigned neg (?ip @ r) = Some (norm_number (?sg * dec_value ?ip) 0, r)"
      by (rule parse_unsigned_plain [OF ip r])
    also have "norm_number (?sg * dec_value ?ip) 0 = norm_number (?sg * dec_value ds) (n - ?k)"
      unfolding v using plain by (simp add: norm_number_shift)
    finally show ?thesis by (simp add: t)
  next
    case point
    let ?ip = "take (nat n) ds" and ?fp = "drop (nat n) ds"
    have t: "digits_toString ds n @ r = ?ip @ CHR ''.'' # ?fp @ r"
      using point by (simp add: digits_toString_def)
    have ip: "list_all is_digit ?ip" "?ip \<noteq> []" "length ?ip = 1 \<or> hd ?ip \<noteq> CHR ''0''"
      using ds point list_all_take_drop [OF ds(1), of "nat n"] by auto
    have fp: "list_all is_digit ?fp" "?fp \<noteq> []"
      using point list_all_take_drop [OF ds(1), of "nat n"] by auto
    have len: "- int (length ?fp) = n - ?k" using point by simp
    show ?thesis
      unfolding t using parse_unsigned_point [OF ip fp r, of neg] len point by simp
  next
    case small
    let ?fp = "replicate (nat (- n)) CHR ''0'' @ ds"
    have t: "digits_toString ds n @ r = ''0'' @ CHR ''.'' # ?fp @ r"
      using small k1 by (simp add: digits_toString_def)
    have ip: "list_all is_digit ''0''" "''0'' \<noteq> []" "length ''0'' = 1 \<or> hd ''0'' \<noteq> CHR ''0''"
      by (simp_all add: is_digit_def)
    have fp: "list_all is_digit ?fp" "?fp \<noteq> []"
      using ds by (auto simp: is_digit_def list_all_iff)
    have len: "- int (length ?fp) = n - ?k" using small by simp
    have "dec_value (''0'' @ ?fp) = dec_value (replicate (Suc (nat (- n))) CHR ''0'' @ ds)" by simp
    also have "\<dots> = dec_value ds"
      by (simp only: dec_value_append dec_value_zeros)
    finally have v: "dec_value (''0'' @ ?fp) = dec_value ds" .
    show ?thesis
      unfolding t using parse_unsigned_point [OF ip fp r, of neg] len v by simp
  next
    case exp1
    have t: "digits_toString ds n @ r
        = ds @ CHR ''e'' # (if n - 1 < 0 then ''-'' else ''+'') @ dec_digits \<bar>n - 1\<bar> @ r"
      using exp1 by (auto simp: digits_toString_def)
    have l: "length ds = 1" using exp1(4) by simp
    show ?thesis
      unfolding t using parse_unsigned_exp [OF ds(1) l num_end_hd [OF r], of neg "n - 1"] l by simp
  next
    case exp2
    let ?ip = "take 1 ds" and ?fp = "drop 1 ds"
    have t: "digits_toString ds n @ r
        = ?ip @ CHR ''.'' # ?fp @ CHR ''e'' # (if n - 1 < 0 then ''-'' else ''+'') @ dec_digits \<bar>n - 1\<bar> @ r"
      using exp2 by (auto simp: digits_toString_def)
    have ip: "list_all is_digit ?ip" "length ?ip = 1"
      using ds list_all_take_drop [OF ds(1), of 1] by (auto simp: Suc_leI)
    have fp: "list_all is_digit ?fp" "?fp \<noteq> []"
      using exp2(4) k1 list_all_take_drop [OF ds(1), of 1] by auto
    have len: "n - 1 - int (length ?fp) = n - ?k" using k1 by simp
    show ?thesis
      unfolding t using parse_unsigned_point_exp [OF ip fp num_end_hd [OF r], of neg "n - 1"] len
      by simp
  qed
qed

lemma digits_toString_hd:
  assumes "list_all is_digit ds" "ds \<noteq> []"
  shows "digits_toString ds n \<noteq> [] \<and> is_digit (hd (digits_toString ds n))"
proof -
  have h: "is_digit (hd ds)" using assms by (cases ds) auto
  have k: "length ds = 1 \<Longrightarrow> ds = [hd ds]" using assms(2) by (cases ds) auto
  have t: "0 < m \<Longrightarrow> hd (take m ds) = hd ds" "0 < m \<Longrightarrow> take m ds \<noteq> []" for m
    using assms(2) by (cases ds; cases m; simp)+
  show ?thesis
    using assms(2) h t [of "nat n"] t [of 1]
    by (auto simp: digits_toString_def Let_def is_digit_def)
qed

lemma norm_number_strip:
  assumes "m \<noteq> 0" "strip_zeros \<bar>m\<bar> e = (s, e')"
  shows "norm_number m e = Finite (if m < 0 then - s else s) e'"
  using assms by (simp add: norm_number_def)

lemma parse_number_finite:
  assumes "num_end r"
  shows "parse_number (finite_toString m e @ r) = Some (norm_number m e, r)"
proof (cases "m = 0")
  case True
  have "parse_unsigned False (''0'' @ r) = Some (norm_number ((if False then -1 else 1) * dec_value ''0'') 0, r)"
    using assms span_digits [of "''0''" r] num_end_hd [OF assms]
    by (simp add: parse_unsigned_def parse_fraction_end parse_exponent_end is_digit_def)
  then show ?thesis using True
    by (simp add: finite_toString_def parse_number_def norm_number_def dec_value_def digit_val_def)
next
  case False
  obtain s e' where st: "strip_zeros \<bar>m\<bar> e = (s, e')" by (cases "strip_zeros \<bar>m\<bar> e")
  from False have "0 < \<bar>m\<bar>" by simp
  from strip_zeros_spec [OF this st] obtain j where
    s: "0 < s" "s mod 10 \<noteq> 0" "\<bar>m\<bar> = s * 10 ^ j" "e' = e + int j" by blast
  let ?ds = "dec_digits s"
  have ds: "list_all is_digit ?ds" "?ds \<noteq> []" "hd ?ds \<noteq> CHR ''0''" "dec_value ?ds = s"
    using dec_digits_props [of s] s(1) by simp_all
  let ?n = "e' + int (length ?ds)"
  have body: "parse_unsigned neg (digits_toString ?ds ?n @ r)
      = Some (norm_number ((if neg then -1 else 1) * s) e', r)" for neg
    using parse_unsigned_digits [OF ds(1,2,3) assms, of neg ?n] ds(4) by simp
  have nn: "norm_number m e = Finite (if m < 0 then - s else s) e'"
    by (rule norm_number_strip [OF False st])
  have fx: "strip_zeros s e' = (s, e')" by (rule strip_zeros_fix [OF s(2)])
  have n2: "norm_number ((if m < 0 then -1 else 1) * s) e' = Finite (if m < 0 then - s else s) e'"
    using s(1) fx by (simp add: norm_number_def)
  have first: "digits_toString ?ds ?n \<noteq> []" "is_digit (hd (digits_toString ?ds ?n))"
    using digits_toString_hd [OF ds(1,2), of ?n] by simp_all
  show ?thesis
  proof (cases "m < 0")
    case True
    then show ?thesis
      using False st body [of True] nn n2
      by (simp add: finite_toString_def parse_number_def Let_def)
  next
    case pos: False
    obtain c t where ct: "digits_toString ?ds ?n = c # t" using first(1) by (cases "digits_toString ?ds ?n") auto
    with first(2) have "c \<noteq> CHR ''-''" by (auto simp: is_digit_def)
    then have "parse_number (digits_toString ?ds ?n @ r) = parse_unsigned False (digits_toString ?ds ?n @ r)"
      by (simp add: parse_number_def ct)
    then show ?thesis
      using False pos st body [of False] nn n2
      by (simp add: finite_toString_def Let_def)
  qed
qed

lemma skip_ws_Cons: "\<not> is_ws c \<Longrightarrow> skip_ws (c # s) = c # s"
  by (simp add: skip_ws_def)

lemma skip_ws_text: "t \<noteq> [] \<Longrightarrow> \<not> is_ws (hd t) \<Longrightarrow> skip_ws (t @ s) = t @ s"
  by (cases t) (simp_all add: skip_ws_def)

lemma num_end_delims [simp]:
  "num_end (CHR '','' # s)" "num_end (CHR '']'' # s)" "num_end (CHR ''}'' # s)" "num_end []"
  by (simp_all add: num_end_def is_digit_def)

lemma not_ws_delims [simp]:
  "\<not> is_ws (CHR '','')" "\<not> is_ws (CHR '']'')" "\<not> is_ws (CHR ''}'')" "\<not> is_ws (CHR '':'')"
  "\<not> is_ws (CHR 0x22)"
  by (simp_all add: is_ws_def)

lemma join_comma_Cons2: "ts \<noteq> [] \<Longrightarrow> join_comma (t # ts) = t @ CHR '','' # join_comma ts"
  by (cases ts) simp_all

lemma join_comma_hd: "ts \<noteq> [] \<Longrightarrow> hd ts \<noteq> [] \<Longrightarrow> join_comma ts \<noteq> [] \<and> hd (join_comma ts) = hd (hd ts)"
  by (cases ts rule: join_comma.cases) auto

lemma parse_elements_texts:
  assumes "\<forall>p\<in>set tvs. parses_as (fst p) (snd p)" "tvs \<noteq> []"
    "length (join_comma (map fst tvs)) < n"
  shows "parse_elements n acc (join_comma (map fst tvs) @ CHR '']'' # r) = Some (acc @ map snd tvs, r)"
  using assms
proof (induction tvs arbitrary: n acc)
  case Nil
  then show ?case by simp
next
  case (Cons p tvs)
  obtain t v where p: "p = (t, v)" by (cases p)
  from Cons.prems(1) p have pa: "parses_as t v" by simp
  show ?case
  proof (cases "tvs = []")
    case True
    with Cons.prems(3) p obtain n' where n: "n = Suc n'" "length t \<le> n'"
      by (cases n) auto
    have "parse_value n' (t @ CHR '']'' # r) = Some (v, CHR '']'' # r)"
      using pa n(2) by (simp add: parses_as_def)
    then show ?thesis using True p n(1) by (simp add: skip_ws_Cons)
  next
    case False
    let ?rest = "join_comma (map fst tvs) @ CHR '']'' # r"
    have j: "join_comma (t # map fst tvs) = t @ CHR '','' # join_comma (map fst tvs)"
      using False by (simp add: join_comma_Cons2)
    with Cons.prems(3) p obtain n' where n: "n = Suc n'" "length t \<le> n'"
      "length (join_comma (map fst tvs)) < n'"
      by (cases n) auto
    have hd: "parses_as (fst (hd tvs)) (snd (hd tvs))" using False Cons.prems(1) by (cases tvs) auto
    have ne: "join_comma (map fst tvs) \<noteq> []" "\<not> is_ws (hd (join_comma (map fst tvs)))"
      using False hd join_comma_hd [of "map fst tvs"]
      by (auto simp: parses_as_def hd_map)
    have sk: "skip_ws ?rest = ?rest" using ne by (rule skip_ws_text)
    have pv: "parse_value n' (t @ CHR '','' # ?rest) = Some (v, CHR '','' # ?rest)"
      using pa n(2) by (simp add: parses_as_def)
    have ih: "parse_elements n' (acc @ [v]) ?rest = Some ((acc @ [v]) @ map snd tvs, r)"
      using Cons.IH [OF _ False n(3)] Cons.prems(1) by simp
    show ?thesis
      using pv ih sk p by (simp add: j n(1) skip_ws_Cons)
  qed
qed

lemma obj_define_fresh: "k \<notin> fst ` set acc \<Longrightarrow> obj_define acc k v = acc @ [(k, v)]"
  by (induction acc) auto

lemma member_text_Cons:
  "member_text (k, t, v) @ s = CHR 0x22 # concat (map quote_char k) @ CHR 0x22 # CHR '':'' # t @ s"
  by (simp add: member_text_def QuoteJSONString_def)

lemma parse_member_step:
  assumes "parses_as t v" "length t \<le> n'" "num_end rest" "rest \<noteq> []" "\<not> is_ws (hd rest)"
  shows "parse_members (Suc n') acc (member_text (k, t, v) @ rest)
     = (if hd rest = CHR '','' then parse_members n' (obj_define acc k v) (skip_ws (tl rest))
        else if hd rest = CHR ''}'' then Some (obj_define acc k v, tl rest) else None)"
proof -
  obtain d r4 where rest: "rest = d # r4" using assms(4) by (cases rest) auto
  have ps: "parse_string (concat (map quote_char k) @ CHR 0x22 # CHR '':'' # t @ rest)
      = Some (k, CHR '':'' # t @ rest)"
    by (rule parse_string_quoted)
  have sk: "skip_ws (t @ rest) = t @ rest"
    using assms(1) by (intro skip_ws_text) (auto simp: parses_as_def)
  have pv: "parse_value n' (t @ rest) = Some (v, rest)"
    using assms(1,2,3) by (simp add: parses_as_def)
  have sr: "skip_ws rest = rest" using assms(5) rest by (simp add: skip_ws_Cons)
  show ?thesis
    unfolding member_text_Cons
    using ps sk pv sr rest
    by (simp add: skip_ws_Cons del: parse_string.simps)
qed

lemma member_text_hd: "member_text m \<noteq> [] \<and> hd (member_text m) = CHR 0x22"
  by (cases m) (simp add: member_text_def QuoteJSONString_def)

lemma parse_members_texts:
  assumes "\<forall>m\<in>set kvs. parses_as (fst (snd m)) (snd (snd m))" "kvs \<noteq> []"
    "distinct (map fst kvs)" "fst ` set kvs \<inter> fst ` set acc = {}"
    "length (join_comma (map member_text kvs)) < n"
  shows "parse_members n acc (join_comma (map member_text kvs) @ CHR ''}'' # r)
     = Some (acc @ map member_value kvs, r)"
  using assms
proof (induction kvs arbitrary: n acc)
  case Nil
  then show ?case by simp
next
  case (Cons m kvs)
  obtain k t v where m: "m = (k, t, v)" by (cases m)
  from Cons.prems(1) m have pa: "parses_as t v" by simp
  from Cons.prems(4) m have fresh: "k \<notin> fst ` set acc" by auto
  have len: "length t < length (member_text (k, t, v))"
    by (simp add: member_text_def QuoteJSONString_def)
  show ?case
  proof (cases "kvs = []")
    case True
    with Cons.prems(5) m len obtain n' where n: "n = Suc n'" "length t \<le> n'"
      by (cases n) auto
    show ?thesis
      using parse_member_step [OF pa n(2), of "CHR ''}'' # r" acc k] True m fresh
      by (simp add: n(1) obj_define_fresh member_value_def)
  next
    case False
    let ?rest = "join_comma (map member_text kvs) @ CHR ''}'' # r"
    have j: "join_comma (member_text (k, t, v) # map member_text kvs)
        = member_text (k, t, v) @ CHR '','' # join_comma (map member_text kvs)"
      using False by (simp add: join_comma_Cons2)
    with Cons.prems(5) m len obtain n' where n: "n = Suc n'" "length t \<le> n'"
      "length (join_comma (map member_text kvs)) < n'"
      by (cases n) auto
    have ne: "join_comma (map member_text kvs) \<noteq> []" "\<not> is_ws (hd (join_comma (map member_text kvs)))"
      using False member_text_hd [of "hd kvs"] join_comma_hd [of "map member_text kvs"]
      by (auto simp: hd_map)
    have sk: "skip_ws ?rest = ?rest" using ne by (rule skip_ws_text)
    have disj: "fst ` set kvs \<inter> fst ` set (acc @ [(k, v)]) = {}"
      using Cons.prems(3,4) m by auto
    have ih: "parse_members n' (acc @ [(k, v)]) ?rest = Some ((acc @ [(k, v)]) @ map member_value kvs, r)"
      using Cons.IH [OF _ False _ disj n(3)] Cons.prems(1,3) by simp
    show ?thesis
      using parse_member_step [OF pa n(2), of "CHR '','' # ?rest" acc k] ih sk m fresh
      by (simp add: j n(1) obj_define_fresh member_value_def)
  qed
qed

lemma JSON_stringify_None: "JSON_stringify v = None \<longleftrightarrow> v = JUndefined"
  by (cases v) simp_all

lemma parses_as_null: "parses_as ''null'' JNull"
proof -
  have "parse_value n (''null'' @ r) = Some (JNull, r)" if "4 \<le> n" for n r
  proof -
    from that obtain n' where "n = Suc n'" by (cases n) auto
    then show ?thesis by (simp add: is_digit_def)
  qed
  then show ?thesis by (simp add: parses_as_def is_ws_def)
qed

lemma parses_as_bool: "parses_as (if b then ''true'' else ''false'') (JBool b)"
proof -
  have "parse_value n ((if b then ''true'' else ''false'') @ r) = Some (JBool b, r)" if "4 \<le> n" for n r
  proof -
    from that obtain n' where "n = Suc n'" by (cases n) auto
    then show ?thesis by (simp add: is_digit_def)
  qed
  then show ?thesis by (auto simp: parses_as_def is_ws_def)
qed

lemma parses_as_string: "parses_as (QuoteJSONString s) (JStr s)"
proof -
  have "parse_value n (QuoteJSONString s @ r) = Some (JStr s, r)" if "1 \<le> n" for n r
  proof -
    from that obtain n' where "n = Suc n'" by (cases n) auto
    then show ?thesis
      using parse_string_quoted [of s r]
      by (simp add: QuoteJSONString_def del: parse_string.simps)
  qed
  then show ?thesis by (auto simp: parses_as_def is_ws_def QuoteJSONString_def)
qed

lemma finite_toString_hd:
  "finite_toString m e \<noteq> [] \<and> (hd (finite_toString m e) = CHR ''-'' \<or> is_digit (hd (finite_toString m e)))"
proof (cases "m = 0")
  case True
  then show ?thesis by (simp add: finite_toString_def is_digit_def)
next
  case False
  obtain s e' where st: "strip_zeros \<bar>m\<bar> e = (s, e')" by (cases "strip_zeros \<bar>m\<bar> e")
  from False have "0 < \<bar>m\<bar>" by simp
  from strip_zeros_spec [OF this st] have "0 < s" by blast
  then have ds: "list_all is_digit (dec_digits s)" "dec_digits s \<noteq> []"
    using dec_digits_props [of s] by simp_all
  show ?thesis
    using False st digits_toString_hd [OF ds, of "e' + int (length (dec_digits s))"]
    by (auto simp: finite_toString_def Let_def)
qed

lemma parses_as_number: "parses_as (finite_toString m e) (JNum (norm_number m e))"
proof -
  obtain c t where ct: "finite_toString m e = c # t"
    using finite_toString_hd [of m e] by (cases "finite_toString m e") auto
  with finite_toString_hd [of m e] have c: "c = CHR ''-'' \<or> is_digit c" by simp
  then have c2: "c \<noteq> CHR ''{''" "c \<noteq> CHR ''[''" "c \<noteq> CHR 0x22" "\<not> is_ws c"
    by (auto simp: is_digit_def is_ws_def)
  have "parse_value n (finite_toString m e @ r) = Some (JNum (norm_number m e), r)"
    if "1 \<le> n" "num_end r" for n r
  proof -
    from that obtain n' where "n = Suc n'" by (cases n) auto
    then show ?thesis
      using parse_number_finite [OF that(2), of m e] c c2 ct
      by auto
  qed
  then show ?thesis using ct c2 by (auto simp: parses_as_def)
qed

lemma parses_as_first:
  assumes "parses_as t v"
  shows "hd t \<noteq> CHR '']''" "hd t \<noteq> CHR ''}''"
proof -
  from assms obtain c t' where t: "t = c # t'" by (cases t) (auto simp: parses_as_def)
  from assms have p: "parse_value (Suc (length t')) (t @ []) = Some (v, [])"
    unfolding parses_as_def using t by (metis length_Cons num_end_delims(4) order_refl)
  show "hd t \<noteq> CHR '']''"
  proof
    assume "hd t = CHR '']''"
    with t p show False by (simp add: is_digit_def)
  qed
  show "hd t \<noteq> CHR ''}''"
  proof
    assume "hd t = CHR ''}''"
    with t p show False by (simp add: is_digit_def)
  qed
qed

lemma members_of_text:
  "map member_text (members_of ps ks)
     = concat (map (\<lambda>k. case JSON_stringify (obj_get ps k) of None \<Rightarrow> []
                         | Some t \<Rightarrow> [QuoteJSONString k @ '':'' @ t]) ks)"
  by (induction ks) (auto simp: members_of_def member_text_def split: option.splits)

lemma members_of_value:
  "map member_value (members_of ps ks)
     = concat (map (\<lambda>k. if obj_get ps k = JUndefined then []
                         else [(k, revive (obj_get ps k))]) ks)"
  by (induction ks) (auto simp: members_of_def member_value_def JSON_stringify_None split: option.splits)

lemma members_of_keys: "map fst (members_of ps ks) = filter (\<lambda>k. obj_get ps k \<noteq> JUndefined) ks"
  by (induction ks) (auto simp: members_of_def JSON_stringify_None split: option.splits)

lemma members_of_set:
  "m \<in> set (members_of ps ks) \<Longrightarrow>
     fst m \<in> set ks \<and> JSON_stringify (obj_get ps (fst m)) = Some (fst (snd m))
     \<and> snd (snd m) = revive (obj_get ps (fst m))"
  by (induction ks) (auto simp: members_of_def split: option.splits)

lemma distinct_own_keys: "distinct (map fst ps) \<Longrightarrow> distinct (own_keys ps)"
  by (auto simp: own_keys_def)

lemma obj_get_in: "k \<in> fst ` set ps \<Longrightarrow> \<exists>p\<in>set ps. fst p = k \<and> obj_get ps k = snd p"
proof (induction ps)
  case Nil
  then show ?case by simp
next
  case (Cons p ps)
  then show ?case by (cases p) (auto simp: obj_get_def)
qed

lemma parses_as_array:
  assumes "\<forall>x\<in>set xs. parses_as (element_text x) (element_value x)"
  shows "parses_as (''['' @ join_comma (map element_text xs) @ '']'') (JArr (map element_value xs))"
proof -
  let ?body = "join_comma (map element_text xs)"
  have "parse_value n ((''['' @ ?body @ '']'') @ r) = Some (JArr (map element_value xs), r)"
    if n: "length (''['' @ ?body @ '']'') \<le> n" for n r
  proof -
    from n obtain n' where n': "n = Suc n'" "length ?body < n'" by (cases n) auto
    show ?thesis
    proof (cases "xs = []")
      case True
      then show ?thesis by (simp add: n' skip_ws_Cons)
    next
      case False
      let ?tvs = "map (\<lambda>x. (element_text x, element_value x)) xs"
      have tvs: "\<forall>p\<in>set ?tvs. parses_as (fst p) (snd p)" "?tvs \<noteq> []"
        "map fst ?tvs = map element_text xs" "map snd ?tvs = map element_value xs"
        using assms False by (auto simp: comp_def)
      have pe: "parse_elements n' [] (?body @ CHR '']'' # r) = Some ([] @ map element_value xs, r)"
        using parse_elements_texts [OF tvs(1,2), of n' "[]" r] n'(2)
        unfolding tvs(3,4) by simp
      have h: "parses_as (element_text (hd xs)) (element_value (hd xs))"
        using assms False by (cases xs) auto
      then have hd: "?body \<noteq> []" "hd ?body = hd (element_text (hd xs))"
        using False join_comma_hd [of "map element_text xs"]
        by (auto simp: hd_map parses_as_def)
      obtain d r' where dr: "?body @ CHR '']'' # r = d # r'" "d = hd ?body"
        using hd(1) by (cases ?body) auto
      have d: "\<not> is_ws d" "d \<noteq> CHR '']''"
        using h hd(2) dr(2) parses_as_first(1) [OF h] by (auto simp: parses_as_def)
      have "parse_value (Suc n') (CHR ''['' # d # r') = Some (JArr (map element_value xs), r)"
        using d pe dr(1) by (simp add: skip_ws_Cons)
      then show ?thesis using dr(1) by (simp add: n')
    qed
  qed
  then show ?thesis by (simp add: parses_as_def is_ws_def)
qed

lemma parses_as_object:
  assumes "\<forall>m\<in>set kvs. parses_as (fst (snd m)) (snd (snd m))" "distinct (map fst kvs)"
  shows "parses_as (''{'' @ join_comma (map member_text kvs) @ ''}'') (JObj (map member_value kvs))"
proof -
  let ?body = "join_comma (map member_text kvs)"
  have "parse_value n ((''{'' @ ?body @ ''}'') @ r) = Some (JObj (map member_value kvs), r)"
    if n: "length (''{'' @ ?body @ ''}'') \<le> n" for n r
  proof -
    from n obtain n' where n': "n = Suc n'" "length ?body < n'" by (cases n) auto
    show ?thesis
    proof (cases "kvs = []")
      case True
      then show ?thesis by (simp add: n' skip_ws_Cons)
    next
      case False
      have pm: "parse_members n' [] (?body @ CHR ''}'' # r) = Some ([] @ map member_value kvs, r)"
        using parse_members_texts [OF assms(1) False assms(2), of "[]" n' r] n'(2) by simp
      have hd: "?body \<noteq> []" "hd ?body = CHR 0x22"
        using False join_comma_hd [of "map member_text kvs"] member_text_hd [of "hd kvs"]
        by (auto simp: hd_map)
      obtain r' where dr: "?body @ CHR ''}'' # r = CHR 0x22 # r'"
        using hd by (cases ?body) auto
      have "parse_value (Suc n') (CHR ''{'' # CHR 0x22 # r') = Some (JObj (map member_value kvs), r)"
        using pm dr by (simp add: skip_ws_Cons)
      then show ?thesis using dr by (simp add: n')
    qed
  qed
  then show ?thesis by (simp add: parses_as_def is_ws_def)
qed

lemma parses_as_stringify:
  "wf_value v \<Longrightarrow> JSON_stringify v = Some t \<Longrightarrow> parses_as t (revive v)"
proof (induction v arbitrary: t)
  case JUndefined
  then show ?case by simp
next
  case JNull
  then show ?case using parses_as_null by simp
next
  case (JBool b)
  then show ?case using parses_as_bool [of b] by auto
next
  case (JNum n)
  show ?case
  proof (cases n)
    case (Finite m e)
    then show ?thesis using JNum parses_as_number [of m e] by auto
  qed (use JNum parses_as_null in auto)
next
  case (JStr s)
  then show ?case using parses_as_string [of s] by auto
next
  case (JDate d)
  show ?case
  proof (cases d)
    case None
    then show ?thesis using JDate parses_as_null by auto
  next
    case (Some s)
    then show ?thesis using JDate parses_as_string [of s] by auto
  qed
next
  case (JArr xs)
  have el: "parses_as (element_text x) (element_value x)" if "x \<in> set xs" for x
  proof (cases "x = JUndefined")
    case True
    then show ?thesis using parses_as_null by (simp add: element_text_def element_value_def)
  next
    case False
    then obtain t' where t': "JSON_stringify x = Some t'"
      using JSON_stringify_None [of x] by auto
    have "wf_value x" using JArr.prems(1) that by (simp add: list_all_iff)
    from JArr.IH [OF that this t'] show ?thesis
      using False t' by (simp add: element_text_def element_value_def)
  qed
  have a: "parses_as (''['' @ join_comma (map element_text xs) @ '']'') (JArr (map element_value xs))"
    using el by (intro parses_as_array) simp
  have b: "t = ''['' @ join_comma (map element_text xs) @ '']''"
    using JArr.prems(2) by (simp add: element_text_def [abs_def])
  have c: "revive (JArr xs) = JArr (map element_value xs)"
    by (simp add: element_value_def [abs_def])
  show ?case unfolding b c by (rule a)
next
  case (JObj ps)
  let ?kvs = "members_of ps (own_keys ps)"
  have d: "distinct (map fst ?kvs)"
    using JObj.prems(1) by (simp add: members_of_keys distinct_own_keys)
  have pa: "parses_as (fst (snd m)) (snd (snd m))" if "m \<in> set ?kvs" for m
  proof -
    from members_of_set [OF that] have m: "fst m \<in> fst ` set ps"
      "JSON_stringify (obj_get ps (fst m)) = Some (fst (snd m))"
      "snd (snd m) = revive (obj_get ps (fst m))" by simp_all
    from obj_get_in [OF m(1)] obtain p where p: "p \<in> set ps" "obj_get ps (fst m) = snd p" by blast
    have wf: "wf_value (snd p)" using JObj.prems(1) p(1) by (simp add: list_all_iff)
    have "snd p \<in> Basic_BNFs.snds p" by (cases p) simp
    from JObj.IH [OF p(1) this wf] m(2,3) p(2) show ?thesis by simp
  qed
  have a: "parses_as (''{'' @ join_comma (map member_text ?kvs) @ ''}'') (JObj (map member_value ?kvs))"
    using pa d by (intro parses_as_object) simp_all
  have b: "t = ''{'' @ join_comma (map member_text ?kvs) @ ''}''"
    using JObj.prems(2) by (simp add: members_of_text)
  have c: "revive (JObj ps) = JObj (map member_value ?kvs)"
    by (simp add: members_of_value)
  show ?case unfolding b c by (rule a)
qed

lemma JSON_parse_stringify:
  assumes "wf_value v" "JSON_stringify v = Some t"
  shows "JSON_parse t = Some (revive v)"
proof -
  from parses_as_stringify [OF assms] have p: "parses_as t (revive v)" .
  then have "parse_value (Suc (length t)) (t @ []) = Some (revive v, [])"
    unfolding parses_as_def by (metis le_SucI num_end_delims(4) order_refl)
  moreover have "skip_ws t = t" using p skip_ws_text [of t "[]"] by (simp add: parses_as_def)
  ultimately show ?thesis by (simp add: JSON_parse_def skip_ws_def)
qed

section \<open>The digest\<close>

lemma length_hex32 [simp]: "length (hex32 w) = 8"
  by (simp add: hex32_def)

lemma length_sha256Hex [simp]: "length (sha256Hex v) = 64"
  by (simp add: sha256Hex_def split: prod.splits)

lemma sha256Hex_not_empty [simp]: "sha256Hex v \<noteq> []"
  using length_sha256Hex [of v] by (cases "sha256Hex v") simp_all

lemma hex_char_lower: "d < 16 \<Longrightarrow> is_lower_hex (hex_char d)"
  using nat_less_16_cases [of d]
  by (auto simp: hex_char_def is_lower_hex_def is_digit_def)

lemma nibble_less: "unat (w AND (0xF :: w32)) < 16"
proof -
  have "w AND 0xF \<le> 0xF" by (rule word_and_le1)
  then have "unat (w AND 0xF) \<le> unat (0xF :: w32)" by (simp add: word_le_nat_alt)
  then show ?thesis by simp
qed

lemma hex32_lower: "list_all is_lower_hex (hex32 w)"
  by (simp add: hex32_def hex_char_lower nibble_less)

lemma sha256Hex_lower: "list_all is_lower_hex (sha256Hex v)"
  by (simp add: sha256Hex_def hex32_lower split: prod.splits)

section \<open>A digest inside a memo\<close>

text \<open>
  A string includes a digest only if it has a run of 64 digest digits; the memo of an
  invoice or of a loan request has none, its longest being the 64 digits of an identifier
  between quotes.
\<close>

lemma str_includes_split: "str_includes s t \<Longrightarrow> \<exists>a b. s = a @ t @ b"
proof (induction s)
  case Nil
  then show ?case by simp
next
  case (Cons c cs)
  show ?case
  proof (cases "prefix t (c # cs)")
    case True
    then obtain b where "c # cs = t @ b" by (auto elim: prefixE)
    then have "c # cs = [] @ t @ b" by simp
    then show ?thesis by blast
  next
    case False
    with Cons obtain a b where "cs = a @ t @ b" by auto
    then have "c # cs = (c # a) @ t @ b" by simp
    then show ?thesis by blast
  qed
qed

lemma str_includes_prefix: "str_includes (t @ b) t"
proof (cases "t @ b")
  case Nil
  then show ?thesis by simp
next
  case (Cons c cs)
  have "prefix t (c # cs)" unfolding Cons [symmetric] by simp
  then have "str_includes (c # cs) t" by (simp only: str_includes.simps) simp
  then show ?thesis by (simp only: Cons)
qed

lemma str_includes_append: "str_includes (a @ t @ b) t"
  by (induction a) (simp_all add: str_includes_prefix)

lemma run_scan_mono:
  "cur \<le> cur' \<Longrightarrow> best \<le> best' \<Longrightarrow> run_scan s cur best \<le> run_scan s cur' best'"
proof (induction s arbitrary: cur cur' best best')
  case Nil
  then show ?case by auto
next
  case (Cons c s)
  have m: "max cur best \<le> max cur' best'" using Cons.prems by auto
  show ?case
  proof (cases "is_lower_hex c")
    case True
    then show ?thesis using Cons.IH [of "Suc cur" "Suc cur'" best best'] Cons.prems by simp
  next
    case False
    then show ?thesis using Cons.IH [of 0 0 "max cur best" "max cur' best'"] m by simp
  qed
qed

lemma run_scan_ge: "max cur best \<le> run_scan s cur best"
proof (induction s arbitrary: cur best)
  case Nil
  then show ?case by simp
next
  case (Cons c s)
  show ?case
  proof (cases "is_lower_hex c")
    case True
    with Cons [of "Suc cur" best] show ?thesis by auto
  next
    case False
    with Cons [of 0 "max cur best"] show ?thesis by auto
  qed
qed

lemma run_scan_hex:
  "list_all is_lower_hex t \<Longrightarrow> cur + length t \<le> run_scan (t @ b) cur best"
proof (induction t arbitrary: cur)
  case Nil
  then show ?case using run_scan_ge [of cur best b] by simp
next
  case (Cons c t)
  then show ?case using Cons.IH [of "Suc cur"] by simp
qed

lemma run_scan_append: "run_scan s 0 0 \<le> run_scan (a @ s) cur best"
proof (induction a arbitrary: cur best)
  case Nil
  then show ?case by (simp add: run_scan_mono)
next
  case (Cons c a)
  then show ?case by simp
qed

lemma includes_hex_run:
  assumes "str_includes s t" "list_all is_lower_hex t"
  shows "length t \<le> longest_hex_run s"
proof -
  from str_includes_split [OF assms(1)] obtain a b where s: "s = a @ t @ b" by blast
  have "length t \<le> run_scan (t @ b) 0 0" using run_scan_hex [OF assms(2), of 0 b 0] by simp
  also have "\<dots> \<le> run_scan (a @ t @ b) 0 0" by (rule run_scan_append)
  finally show ?thesis by (simp add: longest_hex_run_def s)
qed

lemma not_includes_digest: "longest_hex_run s < 64 \<Longrightarrow> \<not> str_includes s (sha256Hex v)"
  using includes_hex_run [of s "sha256Hex v"] sha256Hex_lower [of v] by auto

lemma demo_memo_run: "longest_hex_run demo_memo < 64"
  by (simp add: longest_hex_run_def demo_memo_def is_lower_hex_def is_digit_def)

text \<open>The digests of the examples, computed.\<close>

lemma demo_id_value:
  "demo_id = ''57740619cef8cd49bcb3c295e76ed5a22b0942ecfeac69989606726e39d7b7f9''"
  unfolding demo_id_def demo_memo_def by code_simp

lemma demo_loan_id_value:
  "demo_loan_id = ''f2cfab7ddf5fa954443fe96c2726f85283016473ae7cd12ea0896894664a85bd''"
  unfolding demo_loan_id_def demo_loan_memo_def by code_simp

lemma noted_id_value:
  "noted_id = ''0bafbd1716e5862b7a8d4e74fe9c8f147edb0aeedc798cd8a9ef4b52c6ab4531''"
  unfolding noted_id_def noted_memo_def by code_simp

lemma digest_empty_object:
  "sha256Hex ''{}'' = ''44136fa355b3678a1146ad16f7e8649e94fb4fc21fe77e8310c060f61caaff8a''"
  by code_simp

lemma digest_loan_subset:
  \<open>sha256Hex ''{"createdAt":1700000100}''
     = ''2fd4d38baba1283dcab1319bb12c25cc0f058fa4bf2fdce696923a2101133621''\<close>
  by code_simp

section \<open>The identifier of an invoice\<close>

lemma not_array_index_alpha [simp]:
  "\<not> is_digit c \<Longrightarrow> \<not> is_array_index (c # k)"
  by (simp add: is_array_index_def)

text \<open>The payload of an input that has the declared properties only.\<close>

lemma invoice_payload_declared:
  assumes "other_props input = []"
  shows "invoice_payload input issuer now =
     JObj ([(''amount'', JNum (amount input)),
            (''recipientWallet'', JStr (recipientWallet input)),
            (''dueDate'', JNum (dueDate input))]
           @ optional_prop ''description'' (description input)
           @ optional_prop ''issuerName'' (issuerName input)
           @ [(''issuerWallet'', JStr issuer), (''createdAt'', JNum (of_seconds now))])"
  using assms
  by (cases "description input"; cases "issuerName input")
     (simp_all add: invoice_payload_def input_props_def spread_def optional_prop_def
        own_keys_def is_digit_def obj_get_def)

lemma sortObject_invoice_payload:
  assumes "other_props input = []"
  shows "sortObject (invoice_payload input issuer now) =
     JObj ([(''amount'', JNum (amount input)), (''createdAt'', JNum (of_seconds now))]
           @ optional_prop ''description'' (description input)
           @ [(''dueDate'', JNum (dueDate input))]
           @ optional_prop ''issuerName'' (issuerName input)
           @ [(''issuerWallet'', JStr issuer),
              (''recipientWallet'', JStr (recipientWallet input))])"
  unfolding invoice_payload_declared [OF assms]
  by (cases "description input"; cases "issuerName input")
     (simp_all add: optional_prop_def own_keys_def is_digit_def
        obj_set_def obj_get_def)

lemma finite_toString_norm:
  assumes "norm_number m e = Finite m' e'"
  shows "finite_toString m' e' = finite_toString m e"
proof (cases "m = 0")
  case True
  with assms show ?thesis by (simp add: norm_number_def finite_toString_def)
next
  case False
  obtain s e1 where st: "strip_zeros \<bar>m\<bar> e = (s, e1)" by (cases "strip_zeros \<bar>m\<bar> e")
  from False have "0 < \<bar>m\<bar>" by simp
  from strip_zeros_spec [OF this st] have s: "0 < s" "s mod 10 \<noteq> 0" by simp_all
  from assms False st have m': "m' = (if m < 0 then - s else s)" "e' = e1"
    by (simp_all add: norm_number_def)
  have "strip_zeros \<bar>m'\<bar> e' = (s, e1)"
    using s m' strip_zeros_fix [OF s(2), of e1] by auto
  then show ?thesis using False st s(1) m'
    by (auto simp: finite_toString_def)
qed

lemma JSON_stringify_revive_num: "JSON_stringify (revive (JNum n)) = JSON_stringify (JNum n)"
proof (cases n)
  case (Finite m e)
  have "\<exists>m' e'. norm_number m e = Finite m' e'"
    by (cases "strip_zeros \<bar>m\<bar> e") (simp add: norm_number_def)
  then obtain m' e' where n: "norm_number m e = Finite m' e'" by blast
  with finite_toString_norm [OF n] Finite show ?thesis by simp
qed simp_all

lemma sortObject_revive_num: "sortObject (revive (JNum n)) = revive (JNum n)"
proof (cases n)
  case (Finite m e)
  then show ?thesis by simp
qed simp_all

lemma revive_num_defined: "revive (JNum n) \<noteq> JUndefined" "revive (JNum n) \<noteq> JNull \<or> True"
  by (cases n; simp)+

lemma memo_calcId_invoice_payload:
  assumes plain: "other_props input = []"
    and "stableStringify (invoice_payload input issuer now) = Some serialized"
  shows "memo_calcId serialized
     = Inr (revive (sortObject (invoice_payload input issuer now)), sha256Hex serialized)"
proof -
  let ?S = "sortObject (invoice_payload input issuer now)"
  have wf: "wf_value ?S"
    unfolding sortObject_invoice_payload [OF plain]
    by (cases "description input"; cases "issuerName input") (simp_all add: optional_prop_def)
  have str: "JSON_stringify ?S = Some serialized"
    using assms(2) by (simp add: stableStringify_def)
  have parse: "JSON_parse serialized = Some (revive ?S)"
    by (rule JSON_parse_stringify [OF wf str])
  have again: "(case canonical_subset (revive ?S) of Inl e \<Rightarrow> None
                | Inr picked \<Rightarrow> stableStringify picked) = JSON_stringify ?S"
    unfolding sortObject_invoice_payload [OF plain]
    by (cases "description input"; cases "issuerName input")
       (simp_all add: optional_prop_def own_keys_def is_digit_def obj_set_def obj_get_def
          canonical_subset_def member_def stableStringify_def
          JSON_stringify_revive_num sortObject_revive_num revive_num_defined
          del: revive.simps(3))
  show ?thesis
    using parse again str
    by (auto simp: memo_calcId_def split: sum.splits option.splits)
qed

lemma stableStringify_invoice_payload:
  "other_props input = []
   \<Longrightarrow> \<exists>serialized. stableStringify (invoice_payload input issuer now) = Some serialized"
  by (simp add: stableStringify_def sortObject_invoice_payload)

text \<open>
  For a valid input that has the declared properties only and a connected wallet,
  \<^verbatim>\<open>createInvoice\<close> submits the text \<open>serialized\<close> of the payload and returns its
  digest as the identifier; recomputing the identifier from that memo, over the seven
  fields that \<^verbatim>\<open>verifyInvoice\<close> picks from the parsed record, gives the same
  identifier, and verifying the new entry by its signature and identifier, or by the
  identifier alone, succeeds.
\<close>

lemma round_trip_declared_fields:
  assumes "validateInvoiceInput (clock w) input = Inr ()"
    and "wallet_publicKey w = Some issuer"
    and plain: "other_props input = []"
  shows "\<exists>serialized parsed.
      stableStringify (invoice_payload input issuer (unix_now (clock w))) = Some serialized
    \<and> createInvoice w input (Some sig)
        = (Inr (sha256Hex serialized, sig),
           w\<lparr>ledger := \<lparr>signature = sig, memoData = Some serialized\<rparr> # ledger w\<rparr>)
    \<and> memo_calcId serialized = Inr (parsed, sha256Hex serialized)
    \<and> (sig \<noteq> [] \<longrightarrow>
         verifyInvoice (\<lparr>signature = sig, memoData = Some serialized\<rparr> # ledger w)
             (Some (sha256Hex serialized)) (Some sig)
           = Inr (verified_record parsed (sha256Hex serialized) sig))
    \<and> verifyInvoice (\<lparr>signature = sig, memoData = Some serialized\<rparr> # ledger w)
          (Some (sha256Hex serialized)) None
        = Inr (verified_record parsed (sha256Hex serialized) sig)"
proof -
  let ?P = "invoice_payload input issuer (unix_now (clock w))"
  obtain serialized where ser: "stableStringify ?P = Some serialized"
    using stableStringify_invoice_payload [OF plain] by blast
  let ?parsed = "revive (sortObject ?P)"
  have calc: "memo_calcId serialized = Inr (?parsed, sha256Hex serialized)"
    by (rule memo_calcId_invoice_payload [OF plain ser])
  have create: "createInvoice w input (Some sig)
        = (Inr (sha256Hex serialized, sig),
           w\<lparr>ledger := \<lparr>signature = sig, memoData = Some serialized\<rparr> # ledger w\<rparr>)"
    using assms(1,2) ser by (simp add: createInvoice_def)
  have by_sig: "verifyInvoice (\<lparr>signature = sig, memoData = Some serialized\<rparr> # ledger w)
             (Some (sha256Hex serialized)) (Some sig)
           = Inr (verified_record ?parsed (sha256Hex serialized) sig)" if "sig \<noteq> []"
    using that calc by (simp add: verifyInvoice_def truthy_arg_def getTransaction_def)
  have by_id: "verifyInvoice (\<lparr>signature = sig, memoData = Some serialized\<rparr> # ledger w)
          (Some (sha256Hex serialized)) None
        = Inr (verified_record ?parsed (sha256Hex serialized) sig)"
    using calc by (simp add: verifyInvoice_def truthy_arg_def getSignaturesForAddress_def)
  show ?thesis
    using ser create calc by_sig by_id by blast
qed

lemma demo_plain: "other_props demo_input = []"
  by (simp add: demo_input_def)

lemma demo_serialized:
  "stableStringify (invoice_payload demo_input demo_wallet 1700000000) = Some demo_memo"
  unfolding stableStringify_def sortObject_invoice_payload [OF demo_plain]
  by (simp add: demo_input_def demo_wallet_def demo_memo_def optional_prop_def
      own_keys_def is_digit_def obj_get_def of_seconds_def finite_toString_def
      digits_toString_def strip_zeros.simps dec_digits.simps digit_char_def
      QuoteJSONString_def quote_char_def eval_nat_numeral)

lemma demo_valid: "validateInvoiceInput (clock demo_world) demo_input = Inr ()"
  by (simp add: validateInvoiceInput_def demo_world_def demo_input_def isValidPublicKeyString_def
      isValidAmount_def isFutureTimestamp_def num_greater_def of_seconds_def unix_now_def)

lemma demo_now: "unix_now (clock demo_world) = 1700000000"
  by (simp add: unix_now_def demo_world_def)

lemma demo_calcId: "memo_calcId demo_memo = Inr (demo_parsed, demo_id)"
  using memo_calcId_invoice_payload [OF demo_plain demo_serialized]
  by (simp add: demo_parsed_def demo_id_def)

lemma noted_serialized:
  "stableStringify (invoice_payload noted_input demo_wallet 1700000000) = Some noted_memo"
  by (simp add: noted_input_def demo_input_def demo_wallet_def noted_memo_def
      stableStringify_def invoice_payload_def input_props_def spread_def optional_prop_def
      own_keys_def is_digit_def obj_get_def obj_set_def of_seconds_def finite_toString_def
      digits_toString_def strip_zeros.simps dec_digits.simps digit_char_def
      QuoteJSONString_def quote_char_def eval_nat_numeral)

lemma noted_calcId: "\<exists>parsed. memo_calcId noted_memo = Inr (parsed, demo_id)"
  unfolding demo_id_def
  by (simp add: memo_calcId_def noted_memo_def demo_memo_def
      JSON_parse_def skip_ws_def is_ws_def is_digit_def cons_result_def parse_number_def
      parse_unsigned_def parse_fraction_def parse_exponent_def norm_number_def
      strip_zeros.simps dec_value_def digit_val_def canonical_subset_def member_def
      obj_get_def obj_set_def stableStringify_def own_keys_def finite_toString_def
      digits_toString_def dec_digits.simps digit_char_def QuoteJSONString_def
      quote_char_def eval_nat_numeral)

text \<open>
  C2. An input with a property that the type does not declare gets an identifier that
  verification does not reproduce. The invoice of the examples is created with the own
  property \<^verbatim>\<open>reference\<close> besides the declared ones: \<^verbatim>\<open>createInvoice\<close> accepts it,
  submits the memo \<open>noted_memo\<close>, which has that property, and returns the digest of
  that memo, \<open>noted_id\<close>. Recomputing the identifier from the memo over the seven fields
  \<^verbatim>\<open>amount\<close>, \<^verbatim>\<open>recipientWallet\<close>, \<^verbatim>\<open>dueDate\<close>, \<^verbatim>\<open>description\<close>,
  \<^verbatim>\<open>issuerName\<close>, \<^verbatim>\<open>issuerWallet\<close> and \<^verbatim>\<open>createdAt\<close> gives \<open>demo_id\<close>, the
  identifier of the invoice without the property, which is another one; so
  \<^verbatim>\<open>verifyInvoice\<close> with the returned identifier, with or without the signature,
  returns \<^verbatim>\<open>{ verified: false }\<close> and the status of the new invoice is
  \<^verbatim>\<open>not_found\<close>. The identifier is the digest of the bytes submitted; it is not the
  one that the recomputation over the fixed fields gives.
\<close>

theorem extra_property_not_verified:
  "validateInvoiceInput (clock demo_world) noted_input = Inr ()
   \<and> createInvoice demo_world noted_input (Some ''sig6'')
       = (Inr (noted_id, ''sig6''), demo_world\<lparr>ledger := [noted_entry]\<rparr>)
   \<and> noted_id = ''0bafbd1716e5862b7a8d4e74fe9c8f147edb0aeedc798cd8a9ef4b52c6ab4531''
   \<and> (\<exists>parsed. memo_calcId noted_memo = Inr (parsed, demo_id))
   \<and> demo_id = ''57740619cef8cd49bcb3c295e76ed5a22b0942ecfeac69989606726e39d7b7f9''
   \<and> verifyInvoice [noted_entry] (Some noted_id) (Some ''sig6'')
       = Inr \<lparr>verified = False, invoice_record = None\<rparr>
   \<and> verifyInvoice [noted_entry] (Some noted_id) None
       = Inr \<lparr>verified = False, invoice_record = None\<rparr>
   \<and> getInvoiceStatus [noted_entry] noted_id = Inr InvoiceNotFound
   \<and> verifyInvoice [demo_invoice_entry] (Some demo_id) None
       = Inr (verified_record demo_parsed demo_id ''sig1'')"
proof -
  have valid: "validateInvoiceInput (clock demo_world) noted_input = Inr ()"
    by (simp add: validateInvoiceInput_def noted_input_def demo_world_def demo_input_def
        isValidPublicKeyString_def isValidAmount_def isFutureTimestamp_def num_greater_def
        of_seconds_def unix_now_def)
  have wallet: "wallet_publicKey demo_world = Some demo_wallet" "ledger demo_world = []"
    by (simp_all add: demo_world_def)
  have create: "createInvoice demo_world noted_input (Some ''sig6'')
       = (Inr (noted_id, ''sig6''), demo_world\<lparr>ledger := [noted_entry]\<rparr>)"
    by (simp add: createInvoice_def valid wallet demo_now noted_serialized noted_id_def
        noted_entry_def)
  have differ: "noted_id \<noteq> demo_id" "noted_id \<noteq> []"
    unfolding noted_id_value demo_id_value by simp_all
  from noted_calcId obtain parsed where calc: "memo_calcId noted_memo = Inr (parsed, demo_id)"
    by blast
  have by_sig: "verifyInvoice [noted_entry] (Some noted_id) (Some ''sig6'')
       = Inr \<lparr>verified = False, invoice_record = None\<rparr>"
    using calc differ
    by (simp add: verifyInvoice_def truthy_arg_def getTransaction_def noted_entry_def
        not_verified_def)
  have by_id: "verifyInvoice [noted_entry] (Some noted_id) None
       = Inr \<lparr>verified = False, invoice_record = None\<rparr>"
    using calc differ
    by (simp add: verifyInvoice_def truthy_arg_def getSignaturesForAddress_def noted_entry_def
        not_verified_def)
  have status: "getInvoiceStatus [noted_entry] noted_id = Inr InvoiceNotFound"
    by (simp add: getInvoiceStatus_def by_id)
  have plain: "verifyInvoice [demo_invoice_entry] (Some demo_id) None
       = Inr (verified_record demo_parsed demo_id ''sig1'')"
    using demo_calcId
    by (simp add: verifyInvoice_def truthy_arg_def getSignaturesForAddress_def
        demo_invoice_entry_def demo_id_def)
  show ?thesis
    by (intro conjI valid create noted_id_value noted_calcId demo_id_value by_sig by_id
        status plain)
qed

section \<open>Canonical serialization\<close>

lemma sort_eq_of_set_eq:
  fixes xs ys :: "string list"
  assumes "distinct xs" "distinct ys" "set xs = set ys"
  shows "sort xs = sort ys"
  using assms by (intro sorted_distinct_set_unique) simp_all

lemma obj_get_mem: "k \<in> set (map fst ps) \<Longrightarrow> wf_value (JObj ps) \<Longrightarrow> wf_value (obj_get ps k)"
  using obj_get_in [of k ps] by (auto simp: list_all_iff)

lemma deep_equal_sortObject:
  "deep_equal a b \<Longrightarrow> wf_value a \<Longrightarrow> wf_value b \<Longrightarrow> sortObject a = sortObject b"
proof (induction a b rule: deep_equal.induct)
  case (1 xs ys)
  from "1.prems" have len: "length xs = length ys"
    and de: "\<And>i. i < length xs \<Longrightarrow> deep_equal (xs ! i) (ys ! i)"
    by (simp_all add: list_all2_conv_all_nth)
  have "sortObject (xs ! i) = sortObject (ys ! i)" if "i < length xs" for i
  proof -
    have "xs ! i \<in> set xs" "ys ! i \<in> set ys" using that len by simp_all
    moreover have "wf_value (xs ! i)" "wf_value (ys ! i)"
      using "1.prems"(2,3) calculation by (simp_all add: list_all_iff)
    ultimately show ?thesis using "1.IH" de [OF that] by blast
  qed
  then have "map sortObject xs = map sortObject ys"
    using len by (simp add: list_eq_iff_nth_eq)
  then show ?case by simp
next
  case (2 ps qs)
  have keys: "sort (own_keys ps) = sort (own_keys qs)"
    using "2.prems" by (intro sort_eq_of_set_eq distinct_own_keys) simp_all
  have vals: "sortObject (obj_get ps k) = sortObject (obj_get qs k)" if "k \<in> set (sort (own_keys ps))" for k
  proof -
    from that have k: "k \<in> set (map fst ps)" "k \<in> set (map fst qs)" using "2.prems"(1) by simp_all
    from "2.prems"(1) k(1) have de: "deep_equal (obj_get ps k) (obj_get qs k)" by force
    show ?thesis
      using "2.IH" [OF k(1) de] obj_get_mem [OF k(1) "2.prems"(2)] obj_get_mem [OF k(2) "2.prems"(3)]
      by simp
  qed
  have "fold (\<lambda>k res. obj_set res k (sortObject (obj_get ps k))) (sort (own_keys ps)) []
      = fold (\<lambda>k res. obj_set res k (sortObject (obj_get qs k))) (sort (own_keys qs)) []"
    using keys vals by (intro fold_cong) simp_all
  then show ?case by simp
qed simp_all


lemma fold_obj_set_fresh:
  "distinct ks \<Longrightarrow> set ks \<inter> fst ` set acc = {} \<Longrightarrow>
   fold (\<lambda>k res. obj_set res k (f k)) ks acc
     = acc @ map (\<lambda>k. (k, f k)) (filter (\<lambda>k. k \<noteq> ''__proto__'') ks)"
proof (induction ks arbitrary: acc)
  case Nil
  then show ?case by simp
next
  case (Cons k ks)
  show ?case
  proof (cases "k = ''__proto__''")
    case True
    then show ?thesis using Cons by (simp add: obj_set_def)
  next
    case False
    have fresh: "k \<notin> fst ` set acc" using Cons.prems(2) by auto
    have disj: "set ks \<inter> fst ` set (acc @ [(k, f k)]) = {}" using Cons.prems by auto
    show ?thesis
      using False Cons.IH [OF _ disj] Cons.prems(1) fresh
      by (simp add: obj_set_def obj_define_fresh)
  qed
qed

lemma sortObject_JObj:
  assumes "distinct (map fst ps)"
  shows "sortObject (JObj ps)
     = JObj (map (\<lambda>k. (k, sortObject (obj_get ps k)))
               (filter (\<lambda>k. k \<noteq> ''__proto__'') (sort (own_keys ps))))"
  using fold_obj_set_fresh [of "sort (own_keys ps)" "[]" "\<lambda>k. sortObject (obj_get ps k)"]
    distinct_own_keys [OF assms]
  by simp

lemma obj_get_map: "k \<in> set ks \<Longrightarrow> obj_get (map (\<lambda>k. (k, f k)) ks) k = f k"
  by (induction ks) (auto simp: obj_get_def)

text \<open>
  Two well-formed values that are equal as key/value structures, whatever the order in
  which their keys were inserted, have the same canonical serialization.
\<close>

lemma stableStringify_deep_equal:
  assumes "wf_value r1" "wf_value r2" "deep_equal r1 r2"
  shows "stableStringify r1 = stableStringify r2"
  using deep_equal_sortObject [OF assms(3,1,2)] by (simp add: stableStringify_def)

text \<open>
  C1. The keys of the canonical serialization are not in the order of their code points
  when some of them are array indices. For the record with the keys \<^verbatim>\<open>"10"\<close> and
  \<^verbatim>\<open>"9"\<close>, \<^verbatim>\<open>Object.keys(value).sort()\<close> is \<^verbatim>\<open>["10", "9"]\<close>, the order of
  the code points, and \<^verbatim>\<open>sortObject\<close> inserts the keys in that order into a new
  object; the engine enumerates the keys of that object as \<^verbatim>\<open>["9", "10"]\<close>, array
  indices by ascending value, and \<^verbatim>\<open>JSON.stringify\<close> writes \<^verbatim>\<open>"9"\<close> before
  \<^verbatim>\<open>"10"\<close>, for either order of insertion, at the top level and below it.
\<close>

theorem index_keys_not_in_code_point_order:
  \<open>''10'' < ''9''
   \<and> sort (own_keys [(''9'', JStr ''nine''), (''10'', JStr ''ten'')]) = [''10'', ''9'']
   \<and> sortObject (JObj [(''9'', JStr ''nine''), (''10'', JStr ''ten'')])
       = JObj [(''10'', JStr ''ten''), (''9'', JStr ''nine'')]
   \<and> own_keys [(''10'', JStr ''ten''), (''9'', JStr ''nine'')] = [''9'', ''10'']
   \<and> stableStringify (JObj [(''9'', JStr ''nine''), (''10'', JStr ''ten'')])
       = Some ''{"9":"nine","10":"ten"}''
   \<and> stableStringify (JObj [(''10'', JStr ''ten''), (''9'', JStr ''nine'')])
       = Some ''{"9":"nine","10":"ten"}''
   \<and> stableStringify (JObj [(''a'', JObj [(''10'', JStr ''ten''), (''9'', JStr ''nine'')])])
       = Some ''{"a":{"9":"nine","10":"ten"}}''\<close>
  by (simp add: stableStringify_def own_keys_def is_array_index_def is_digit_def dec_value_def
      digit_val_def obj_set_def obj_get_def QuoteJSONString_def quote_char_def)

section \<open>Validation\<close>

lemma isValidAmount_Finite [simp]: "isValidAmount (Finite m e) \<longleftrightarrow> 0 < m"
  by (simp add: isValidAmount_def num_greater_def Let_def zero_less_mult_iff)

lemma isValidAmount_nonfinite [simp]:
  "\<not> isValidAmount PosInfinity" "\<not> isValidAmount NegInfinity" "\<not> isValidAmount NaN"
  by (simp_all add: isValidAmount_def)

lemma isFutureTimestamp_Finite0 [simp]:
  "isFutureTimestamp clock_ms (Finite n 0) \<longleftrightarrow> clock_ms div 1000 < n"
  by (simp add: isFutureTimestamp_def num_greater_def of_seconds_def unix_now_def)

text \<open>
  C10. The wallet check of invoice validation looks at the length of the string only:
  a string of 32 to 44 characters is accepted whatever it holds, any other string is
  rejected with the error \<^verbatim>\<open>Invalid recipient wallet\<close> (when the amount is valid, the
  check before it), and an input whose other fields are valid is accepted exactly when
  the wallet has such a length.
\<close>

theorem wallet_validation_length_only:
  "(isValidPublicKeyString w \<longleftrightarrow> 32 \<le> length w \<and> length w \<le> 44)
   \<and> (isValidAmount (amount i) \<and> \<not> (32 \<le> length (recipientWallet i) \<and> length (recipientWallet i) \<le> 44)
        \<longrightarrow> validateInvoiceInput clock_ms i
              = Inl (MoviraError INVALID_INPUT ''Invalid recipient wallet''))
   \<and> (isValidAmount (amount i) \<and> isFutureTimestamp clock_ms (dueDate i)
        \<and> (\<forall>d. description i = Some d \<longrightarrow> length d \<le> 1024)
        \<longrightarrow> (validateInvoiceInput clock_ms i = Inr ()
               \<longleftrightarrow> 32 \<le> length (recipientWallet i) \<and> length (recipientWallet i) \<le> 44))"
  by (auto simp: validateInvoiceInput_def isValidPublicKeyString_def split: option.splits)

theorem wallet_validation_length_only_witness:
  "validateInvoiceInput 1700000000000
     \<lparr>amount = Finite 15 (-1), recipientWallet = replicate 31 CHR ''A'',
      dueDate = Finite 1700086400 0, description = None, issuerName = None, other_props = []\<rparr>
     = Inl (MoviraError INVALID_INPUT ''Invalid recipient wallet'')
   \<and> validateInvoiceInput 1700000000000
     \<lparr>amount = Finite 15 (-1), recipientWallet = replicate 32 CHR ''!'',
      dueDate = Finite 1700086400 0, description = None, issuerName = None, other_props = []\<rparr>
     = Inr ()"
  using wallet_validation_length_only
    [of "replicate 32 CHR ''!''"
        "\<lparr>amount = Finite 15 (-1), recipientWallet = replicate 31 CHR ''A'',
          dueDate = Finite 1700086400 0, description = None, issuerName = None, other_props = []\<rparr>"
        1700000000000]
    wallet_validation_length_only
    [of "replicate 32 CHR ''!''"
        "\<lparr>amount = Finite 15 (-1), recipientWallet = replicate 32 CHR ''!'',
          dueDate = Finite 1700086400 0, description = None, issuerName = None, other_props = []\<rparr>"
        1700000000000]
  by simp


text \<open>
  C6. Validation rejects with \<^verbatim>\<open>INVALID_INPUT\<close> an amount that is not finite or not
  above zero, a due date that is not after the current second, and a description of
  more than 1024 characters; it accepts exactly the inputs that pass these checks and
  the wallet check, among them the amount 0.01 with the due date a day ahead; and
  \<^verbatim>\<open>createInvoice\<close> returns the error of a rejected input with the ledger untouched,
  whatever the network would have answered.
\<close>

theorem validateInvoiceInput_boundaries:
  "(amount i \<in> {PosInfinity, NegInfinity, NaN} \<or> (\<exists>m e. amount i = Finite m e \<and> m \<le> 0)
      \<longrightarrow> validateInvoiceInput clock_ms i = Inl (MoviraError INVALID_INPUT ''Invalid invoice amount''))
   \<and> (\<not> num_greater (dueDate i) (of_seconds (unix_now clock_ms))
      \<longrightarrow> (\<exists>msg. validateInvoiceInput clock_ms i = Inl (MoviraError INVALID_INPUT msg)))
   \<and> ((\<exists>d. description i = Some d \<and> length d > 1024)
      \<longrightarrow> (\<exists>msg. validateInvoiceInput clock_ms i = Inl (MoviraError INVALID_INPUT msg)))
   \<and> (validateInvoiceInput clock_ms i = Inr ()
      \<longleftrightarrow> isValidAmount (amount i) \<and> isValidPublicKeyString (recipientWallet i)
          \<and> isFutureTimestamp clock_ms (dueDate i)
          \<and> (\<forall>d. description i = Some d \<longrightarrow> length d \<le> 1024))
   \<and> (amount i = Finite 1 (-2) \<and> dueDate i = of_seconds (unix_now clock_ms + 86400)
        \<and> isValidPublicKeyString (recipientWallet i)
        \<and> (\<forall>d. description i = Some d \<longrightarrow> length d \<le> 1024)
      \<longrightarrow> validateInvoiceInput clock_ms i = Inr ())
   \<and> (validateInvoiceInput (clock w) i = Inl err \<longrightarrow> createInvoice w i outcome = (Inl err, w))"
proof -
  have amount: "\<not> isValidAmount (amount i)"
    if "amount i \<in> {PosInfinity, NegInfinity, NaN} \<or> (\<exists>m e. amount i = Finite m e \<and> m \<le> 0)"
    using that by auto
  have future: "isFutureTimestamp clock_ms (of_seconds (unix_now clock_ms + 86400))"
    by (simp add: isFutureTimestamp_def num_greater_def of_seconds_def)
  show ?thesis
    using amount future
    by (auto simp: validateInvoiceInput_def createInvoice_def isFutureTimestamp_def
        split: option.splits)
qed

theorem validateInvoiceInput_boundaries_witness:
  "validateInvoiceInput 1700000000000
     \<lparr>amount = Finite 0 0, recipientWallet = replicate 44 CHR ''A'',
      dueDate = Finite 1700001000 0, description = None, issuerName = None, other_props = []\<rparr>
     = Inl (MoviraError INVALID_INPUT ''Invalid invoice amount'')
   \<and> (\<exists>msg. validateInvoiceInput 1700000000000
     \<lparr>amount = Finite 1 0, recipientWallet = replicate 44 CHR ''A'',
      dueDate = Finite 1700000000 0, description = None, issuerName = None, other_props = []\<rparr>
     = Inl (MoviraError INVALID_INPUT msg))
   \<and> (\<exists>msg. validateInvoiceInput 1700000000000
     \<lparr>amount = Finite 1 0, recipientWallet = replicate 44 CHR ''A'',
      dueDate = Finite 1700001000 0, description = Some (replicate 1025 CHR ''d''),
      issuerName = None, other_props = []\<rparr>
     = Inl (MoviraError INVALID_INPUT msg))
   \<and> validateInvoiceInput 1700000000000
     \<lparr>amount = Finite 1 (-2), recipientWallet = replicate 44 CHR ''A'',
      dueDate = Finite 1700086400 0, description = Some (replicate 1024 CHR ''d''),
      issuerName = None, other_props = []\<rparr>
     = Inr ()
   \<and> createInvoice \<lparr>ledger = [], wallet_publicKey = None, clock = 1700000000000\<rparr>
     \<lparr>amount = Finite 0 0, recipientWallet = replicate 44 CHR ''A'',
      dueDate = Finite 1700001000 0, description = None, issuerName = None, other_props = []\<rparr> (Some ''sig'')
     = (Inl (MoviraError INVALID_INPUT ''Invalid invoice amount''),
        \<lparr>ledger = [], wallet_publicKey = None, clock = 1700000000000\<rparr>)"
  using
    validateInvoiceInput_boundaries
      [of "\<lparr>amount = Finite 0 0, recipientWallet = replicate 44 CHR ''A'',
            dueDate = Finite 1700001000 0, description = None, issuerName = None, other_props = []\<rparr>"
          1700000000000
          "\<lparr>ledger = [], wallet_publicKey = None, clock = 1700000000000\<rparr>"
          "MoviraError INVALID_INPUT ''Invalid invoice amount''" "Some ''sig''"]
    validateInvoiceInput_boundaries
      [of "\<lparr>amount = Finite 1 0, recipientWallet = replicate 44 CHR ''A'',
            dueDate = Finite 1700000000 0, description = None, issuerName = None, other_props = []\<rparr>"
          1700000000000]
    validateInvoiceInput_boundaries
      [of "\<lparr>amount = Finite 1 0, recipientWallet = replicate 44 CHR ''A'',
            dueDate = Finite 1700001000 0, description = Some (replicate 1025 CHR ''d''),
            issuerName = None, other_props = []\<rparr>"
          1700000000000]
    validateInvoiceInput_boundaries
      [of "\<lparr>amount = Finite 1 (-2), recipientWallet = replicate 44 CHR ''A'',
            dueDate = Finite 1700086400 0, description = Some (replicate 1024 CHR ''d''),
            issuerName = None, other_props = []\<rparr>"
          1700000000000]
  by (simp add: isValidPublicKeyString_def of_seconds_def unix_now_def num_greater_def)

section \<open>Status derivation\<close>

lemma invoice_status_scan_range:
  "invoice_status_scan iid sigs status \<in> {status, Financed, Settled}"
  by (induction sigs arbitrary: status) (auto split: option.splits)

lemma loan_status_scan_range:
  "loan_status_scan loanId sigs found status \<in> {status, LoanNotFound, Requested, Active, Repaid}"
  by (induction sigs arbitrary: found status) (auto split: option.splits)

text \<open>
  C9. Whatever the ledger holds, \<^verbatim>\<open>getInvoiceStatus\<close> does not return
  \<^verbatim>\<open>pending\<close> and \<^verbatim>\<open>getLoanStatus\<close> does not return \<^verbatim>\<open>defaulted\<close>: the first
  throws or returns \<^verbatim>\<open>not_found\<close>, \<^verbatim>\<open>verified\<close>, \<^verbatim>\<open>financed\<close> or
  \<^verbatim>\<open>settled\<close>, and for an invoice that verification finds it returns one of the last
  three.
\<close>

theorem status_members_never_produced:
  "getInvoiceStatus chain iid \<noteq> Inr Pending
   \<and> getLoanStatus chain loanId \<noteq> Defaulted
   \<and> (\<forall>v. verifyInvoice chain (Some iid) None = Inr v \<and> verified v
        \<longrightarrow> getInvoiceStatus chain iid \<in> {Inr Verified, Inr Financed, Inr Settled})"
proof -
  have inv: "invoice_status_scan iid (getSignaturesForAddress chain 200) Verified
               \<in> {Verified, Financed, Settled}"
    using invoice_status_scan_range [of iid "getSignaturesForAddress chain 200" Verified]
    by simp
  have loan: "loan_status_scan loanId (getSignaturesForAddress chain 1000) False LoanNotFound
               \<noteq> Defaulted"
    using loan_status_scan_range
      [of loanId "getSignaturesForAddress chain 1000" False LoanNotFound] by auto
  from inv have "getInvoiceStatus chain iid \<noteq> Inr Pending"
    by (auto simp: getInvoiceStatus_def split: sum.splits)
  moreover from loan have "getLoanStatus chain loanId \<noteq> Defaulted"
    by (simp add: getLoanStatus_def)
  moreover from inv have "getInvoiceStatus chain iid \<in> {Inr Verified, Inr Financed, Inr Settled}"
    if "verifyInvoice chain (Some iid) None = Inr v" "verified v" for v
    using that by (auto simp: getInvoiceStatus_def)
  ultimately show ?thesis by blast
qed

lemma verify_demo_invoice:
  "verifyInvoice [demo_invoice_entry] (Some demo_id) None
     = Inr (verified_record demo_parsed demo_id ''sig1'')"
  using demo_calcId
  by (simp add: verifyInvoice_def truthy_arg_def getSignaturesForAddress_def
      demo_invoice_entry_def demo_id_def)

lemma demo_invoice_scan:
  "invoice_status_scan demo_id [demo_invoice_entry] status = status"
  using not_includes_digest [OF demo_memo_run, of demo_memo]
  by (simp add: demo_invoice_entry_def demo_id_def)

theorem status_members_never_produced_witness:
  "getInvoiceStatus [demo_invoice_entry] demo_id = Inr Verified
   \<and> getInvoiceStatus [demo_invoice_entry] demo_id \<noteq> Inr Pending
   \<and> getLoanStatus [demo_invoice_entry] demo_id = LoanNotFound"
proof -
  have v: "verified (verified_record demo_parsed demo_id ''sig1'')"
    by (simp add: verified_record_def)
  have s: "getInvoiceStatus [demo_invoice_entry] demo_id = Inr Verified"
    by (simp add: getInvoiceStatus_def verify_demo_invoice v getSignaturesForAddress_def
        demo_invoice_scan del: invoice_status_scan.simps)
  have l: "getLoanStatus [demo_invoice_entry] demo_id = LoanNotFound"
    using not_includes_digest [OF demo_memo_run, of demo_memo]
    by (simp add: getLoanStatus_def getSignaturesForAddress_def demo_invoice_entry_def
        demo_id_def)
  from status_members_never_produced [of "[demo_invoice_entry]" demo_id demo_id]
    verify_demo_invoice v s l
  show ?thesis by simp
qed

subsection \<open>The status of an invoice\<close>

lemma invoice_status_scan_eq:
  "invoice_status_scan iid sigs status =
     (if \<exists>s\<in>set sigs. repay_entry iid s then Settled
      else if \<exists>s\<in>set sigs. loan_entry iid s then Financed else status)"
  by (induction sigs arbitrary: status)
     (auto simp: repay_entry_def loan_entry_def split: option.splits)

text \<open>
  C4. For an invoice \<open>iid\<close> that verification finds, \<^verbatim>\<open>getInvoiceStatus\<close> looks at the
  200 newest entries: if one of them mentions \<open>iid\<close> with the word repay the status is
  \<^verbatim>\<open>settled\<close>, wherever that entry stands and whatever entries with the word loan
  stand before or after it; if none does and one mentions \<open>iid\<close> with the word loan the
  status is \<^verbatim>\<open>financed\<close>, which a later entry of the scan can still turn into
  \<^verbatim>\<open>settled\<close>; otherwise it is \<^verbatim>\<open>verified\<close>.
\<close>

theorem invoice_status_terminal:
  "verifyInvoice chain (Some iid) None = Inr v \<and> verified v \<longrightarrow>
     ((\<exists>s\<in>set (getSignaturesForAddress chain 200). repay_entry iid s)
        \<longrightarrow> getInvoiceStatus chain iid = Inr Settled)
   \<and> (\<not> (\<exists>s\<in>set (getSignaturesForAddress chain 200). repay_entry iid s)
      \<and> (\<exists>s\<in>set (getSignaturesForAddress chain 200). loan_entry iid s)
        \<longrightarrow> getInvoiceStatus chain iid = Inr Financed)
   \<and> (\<not> (\<exists>s\<in>set (getSignaturesForAddress chain 200). repay_entry iid s)
      \<and> \<not> (\<exists>s\<in>set (getSignaturesForAddress chain 200). loan_entry iid s)
        \<longrightarrow> getInvoiceStatus chain iid = Inr Verified)"
  by (simp add: getInvoiceStatus_def invoice_status_scan_eq)

lemma demo_loan_calcId:
  "\<exists>p. memo_calcId demo_loan_memo
     = Inr (p, ''2fd4d38baba1283dcab1319bb12c25cc0f058fa4bf2fdce696923a2101133621'')"
  by (simp add: memo_calcId_def digest_loan_subset demo_loan_memo_def
        JSON_parse_def skip_ws_def is_ws_def is_digit_def
        cons_result_def parse_number_def parse_unsigned_def parse_fraction_def
        parse_exponent_def norm_number_def strip_zeros.simps dec_value_def digit_val_def
        canonical_subset_def member_def obj_get_def obj_set_def stableStringify_def own_keys_def
        finite_toString_def digits_toString_def dec_digits.simps digit_char_def
        QuoteJSONString_def quote_char_def eval_nat_numeral)

lemma demo_repay_calcId:
  "\<exists>p. memo_calcId demo_repay_memo
     = Inr (p, ''44136fa355b3678a1146ad16f7e8649e94fb4fc21fe77e8310c060f61caaff8a'')"
  by (simp add: memo_calcId_def digest_empty_object demo_repay_memo_def
        JSON_parse_def skip_ws_def is_ws_def is_digit_def
        cons_result_def canonical_subset_def member_def obj_get_def obj_set_def
        stableStringify_def own_keys_def)

lemma verify_demo_chain:
  "verifyInvoice [demo_repay_entry, demo_loan_entry, demo_invoice_entry] (Some demo_id) None
     = Inr (verified_record demo_parsed demo_id ''sig1'')"
  "verifyInvoice [demo_loan_entry, demo_repay_entry, demo_invoice_entry] (Some demo_id) None
     = Inr (verified_record demo_parsed demo_id ''sig1'')"
  "verifyInvoice [demo_loan_entry, demo_invoice_entry] (Some demo_id) None
     = Inr (verified_record demo_parsed demo_id ''sig1'')"
  using demo_calcId demo_loan_calcId demo_repay_calcId
  by (auto simp: verifyInvoice_def truthy_arg_def getSignaturesForAddress_def demo_id_def
      demo_repay_entry_def demo_loan_entry_def demo_invoice_entry_def
      demo_id_value [unfolded demo_id_def])

lemma demo_entries:
  "repay_entry demo_id demo_repay_entry" "\<not> repay_entry demo_id demo_loan_entry"
  "loan_entry demo_id demo_loan_entry" "\<not> repay_entry demo_id demo_invoice_entry"
  "\<not> loan_entry demo_id demo_invoice_entry"
  unfolding demo_id_value by code_simp+

theorem invoice_status_terminal_witness:
  "getInvoiceStatus [demo_repay_entry, demo_loan_entry, demo_invoice_entry] demo_id = Inr Settled
   \<and> getInvoiceStatus [demo_loan_entry, demo_repay_entry, demo_invoice_entry] demo_id = Inr Settled
   \<and> getInvoiceStatus [demo_loan_entry, demo_invoice_entry] demo_id = Inr Financed
   \<and> getInvoiceStatus [demo_invoice_entry] demo_id = Inr Verified"
proof -
  have v: "verified (verified_record demo_parsed demo_id ''sig1'')"
    by (simp add: verified_record_def)
  show ?thesis
    using invoice_status_terminal
        [of "[demo_repay_entry, demo_loan_entry, demo_invoice_entry]" demo_id
            "verified_record demo_parsed demo_id ''sig1''"]
      invoice_status_terminal
        [of "[demo_loan_entry, demo_repay_entry, demo_invoice_entry]" demo_id
            "verified_record demo_parsed demo_id ''sig1''"]
      invoice_status_terminal
        [of "[demo_loan_entry, demo_invoice_entry]" demo_id
            "verified_record demo_parsed demo_id ''sig1''"]
      invoice_status_terminal
        [of "[demo_invoice_entry]" demo_id "verified_record demo_parsed demo_id ''sig1''"]
      verify_demo_chain verify_demo_invoice v demo_entries
    by (simp add: getSignaturesForAddress_def)
qed

subsection \<open>The status of a loan\<close>

lemma sortObject_loan_payload:
  "sortObject (loan_payload input borrower now) =
     JObj ([(''borrowerWallet'', JStr borrower), (''createdAt'', JNum (of_seconds now)),
            (''invoiceId'', JStr (invoiceId input))]
           @ optional_prop ''lenderWallet'' (lenderWallet input)
           @ [(''loanDurationDays'', JNum (loanDurationDays input)),
              (''requestedAmount'', JNum (requestedAmount input))])"
  by (cases "lenderWallet input")
     (simp_all add: loan_payload_def optional_prop_def own_keys_def is_digit_def obj_set_def
        obj_get_def)

lemma demo_loan_serialized:
  "stableStringify (loan_payload demo_loan demo_wallet 1700000100) = Some demo_loan_memo"
  by (simp add: demo_loan_def demo_wallet_def demo_loan_memo_def stableStringify_def
      sortObject_loan_payload optional_prop_def own_keys_def is_digit_def obj_get_def
      of_seconds_def finite_toString_def digits_toString_def strip_zeros.simps dec_digits.simps
      digit_char_def QuoteJSONString_def quote_char_def eval_nat_numeral)

text \<open>
  C3. The entry that \<^verbatim>\<open>requestLoan\<close> writes is not found by \<^verbatim>\<open>getLoanStatus\<close>. A loan
  of 1 for 60 days is requested against the invoice of the examples: the request succeeds,
  returns the identifier \<open>demo_loan_id\<close> and puts its memo on the ledger; the status of
  that loan is then \<^verbatim>\<open>not_found\<close>, its request being the newest entry. The scan looks
  for entries whose memo includes the identifier, and the memo of the request is the text
  whose digest the identifier is. Only an entry of somebody else that quotes the identifier
  is found: with the word lend it gives \<^verbatim>\<open>active\<close>, with no word of lending or
  repayment \<^verbatim>\<open>requested\<close>.
\<close>

theorem own_loan_request_not_found:
  "requestLoan demo_world2 demo_loan (Some ''sig2'')
     = (Inr (demo_loan_id, ''sig2''),
        demo_world2\<lparr>ledger := [demo_loan_entry, demo_invoice_entry]\<rparr>)
   \<and> getLoanStatus [demo_loan_entry, demo_invoice_entry] demo_loan_id = LoanNotFound
   \<and> getLoanStatus [demo_lend_entry, demo_loan_entry, demo_invoice_entry] demo_loan_id = Active
   \<and> getLoanStatus [demo_note_entry, demo_loan_entry, demo_invoice_entry] demo_loan_id
       = Requested"
proof -
  have w: "wallet_publicKey demo_world2 = Some demo_wallet"
    "unix_now (clock demo_world2) = 1700000100" "ledger demo_world2 = [demo_invoice_entry]"
    by (simp_all add: unix_now_def demo_world2_def)
  have i: "invoiceId demo_loan \<noteq> []" "num_greater (requestedAmount demo_loan) (Finite 0 0)"
    by (simp_all add: demo_loan_def num_greater_def)
  have req: "requestLoan demo_world2 demo_loan (Some ''sig2'')
     = (Inr (demo_loan_id, ''sig2''),
        demo_world2\<lparr>ledger := [demo_loan_entry, demo_invoice_entry]\<rparr>)"
    by (simp add: requestLoan_def w i demo_loan_serialized demo_loan_id_def demo_loan_entry_def)
  have n1: "\<not> str_includes demo_loan_memo demo_loan_id"
    unfolding demo_loan_id_value by (simp add: demo_loan_memo_def)
  have n2: "\<not> str_includes demo_memo demo_loan_id"
    unfolding demo_loan_id_def by (rule not_includes_digest [OF demo_memo_run])
  have own: "loan_status_scan demo_loan_id [demo_loan_entry, demo_invoice_entry] found status
               = (if found then status else LoanNotFound)" for found status
    using n1 n2 by (simp add: demo_loan_entry_def demo_invoice_entry_def)
  have "getLoanStatus [demo_loan_entry, demo_invoice_entry] demo_loan_id = LoanNotFound"
    by (simp add: getLoanStatus_def getSignaturesForAddress_def own
        del: loan_status_scan.simps)
  moreover have "loan_status_scan demo_loan_id (demo_lend_entry # rest) False LoanNotFound
                  = loan_status_scan demo_loan_id rest True Active" for rest
    unfolding demo_loan_id_value
    by (simp add: demo_lend_entry_def toLowerCase_def lower_char_def)
  then have "getLoanStatus [demo_lend_entry, demo_loan_entry, demo_invoice_entry] demo_loan_id
               = Active"
    by (simp add: getLoanStatus_def getSignaturesForAddress_def own
        del: loan_status_scan.simps)
  moreover have "loan_status_scan demo_loan_id (demo_note_entry # rest) False LoanNotFound
                  = loan_status_scan demo_loan_id rest True Requested" for rest
    unfolding demo_loan_id_value
    by (simp add: demo_note_entry_def toLowerCase_def lower_char_def)
  then have "getLoanStatus [demo_note_entry, demo_loan_entry, demo_invoice_entry] demo_loan_id
               = Requested"
    by (simp add: getLoanStatus_def getSignaturesForAddress_def own
        del: loan_status_scan.simps)
  ultimately show ?thesis using req by simp
qed

subsection \<open>Entries that hold no record\<close>

lemma parse_hello: "JSON_parse ''hello'' = None"
  by (simp add: JSON_parse_def skip_ws_def is_ws_def is_digit_def parse_number_def
      parse_unsigned_def)

lemma parse_null: "JSON_parse ''null'' = Some JNull"
  by (simp add: JSON_parse_def skip_ws_def is_ws_def is_digit_def)

text \<open>
  C5. A memo that is not a record stops \<^verbatim>\<open>verifyInvoice\<close>. The invoice of the
  examples is verified on the ledger that holds its entry alone. With a newer entry
  whose memo is the five bytes hello, the search by identifier throws the SyntaxError of
  \<^verbatim>\<open>JSON.parse\<close> before it reaches the entry of the invoice, and so does
  \<^verbatim>\<open>getInvoiceStatus\<close>, which starts with that search; with a newer entry whose memo is
  the text null both throw the TypeError of \<^verbatim>\<open>parsed.amount\<close>. The verification of a
  given transaction throws in the same way.
\<close>

theorem corrupt_entry_aborts:
  "verifyInvoice [demo_invoice_entry] (Some demo_id) None
     = Inr (verified_record demo_parsed demo_id ''sig1'')
   \<and> verifyInvoice [corrupt_entry, demo_invoice_entry] (Some demo_id) None = Inl SyntaxError
   \<and> getInvoiceStatus [corrupt_entry, demo_invoice_entry] demo_id = Inl SyntaxError
   \<and> verifyInvoice [null_entry, demo_invoice_entry] (Some demo_id) None = Inl TypeError
   \<and> getInvoiceStatus [null_entry, demo_invoice_entry] demo_id = Inl TypeError
   \<and> verifyInvoice [corrupt_entry] None (Some ''sig0'') = Inl SyntaxError"
proof -
  have "demo_id \<noteq> []" by (simp add: demo_id_def)
  then have "verifyInvoice [corrupt_entry, demo_invoice_entry] (Some demo_id) None = Inl SyntaxError"
    "getInvoiceStatus [corrupt_entry, demo_invoice_entry] demo_id = Inl SyntaxError"
    "verifyInvoice [null_entry, demo_invoice_entry] (Some demo_id) None = Inl TypeError"
    "getInvoiceStatus [null_entry, demo_invoice_entry] demo_id = Inl TypeError"
    "verifyInvoice [corrupt_entry] None (Some ''sig0'') = Inl SyntaxError"
    by (simp_all add: getInvoiceStatus_def verifyInvoice_def truthy_arg_def
        getSignaturesForAddress_def getTransaction_def corrupt_entry_def null_entry_def
        memo_calcId_def parse_hello parse_null canonical_subset_def)
  with verify_demo_invoice show ?thesis by simp
qed

subsection \<open>An identifier that is not found\<close>

lemma scan_for_invoice_absent:
  "(\<forall>tx\<in>set txs. \<forall>memo. memoData tx = Some memo \<longrightarrow>
       (\<exists>parsed calcId. memo_calcId memo = Inr (parsed, calcId) \<and> calcId \<noteq> iid))
   \<Longrightarrow> scan_for_invoice iid txs = Inr not_verified"
  by (induction txs) (auto split: option.splits)

text \<open>
  C7. Looking for an identifier that is on no entry throws when a memo among the 1000
  newest entries is not a record. On the ledger that holds the entry of the invoice of
  the examples, \<^verbatim>\<open>verifyInvoice\<close> returns \<^verbatim>\<open>{ verified: false }\<close> and
  \<^verbatim>\<open>getInvoiceStatus\<close> returns \<^verbatim>\<open>not_found\<close> for the identifier
  \<^verbatim>\<open>nonexistent-id\<close>, and so they do for the identifier of the invoice when 1000
  newer entries stand before its entry. With an entry whose memo is the five bytes hello
  on the ledger, alone or before the entry of the invoice, both throw the SyntaxError of
  \<^verbatim>\<open>JSON.parse\<close> for \<^verbatim>\<open>nonexistent-id\<close>; with the memo null they throw a
  TypeError.
\<close>

theorem absent_identifier_throws:
  "verifyInvoice [demo_invoice_entry] (Some ''nonexistent-id'') None
     = Inr \<lparr>verified = False, invoice_record = None\<rparr>
   \<and> getInvoiceStatus [demo_invoice_entry] ''nonexistent-id'' = Inr InvoiceNotFound
   \<and> verifyInvoice (replicate 1000 old_entry @ [demo_invoice_entry]) (Some demo_id) None
     = Inr \<lparr>verified = False, invoice_record = None\<rparr>
   \<and> getInvoiceStatus (replicate 1000 old_entry @ [demo_invoice_entry]) demo_id
     = Inr InvoiceNotFound
   \<and> verifyInvoice [corrupt_entry] (Some ''nonexistent-id'') None = Inl SyntaxError
   \<and> getInvoiceStatus [corrupt_entry] ''nonexistent-id'' = Inl SyntaxError
   \<and> verifyInvoice [corrupt_entry, demo_invoice_entry] (Some ''nonexistent-id'') None
     = Inl SyntaxError
   \<and> getInvoiceStatus [corrupt_entry, demo_invoice_entry] ''nonexistent-id'' = Inl SyntaxError
   \<and> verifyInvoice [null_entry] (Some ''nonexistent-id'') None = Inl TypeError
   \<and> getInvoiceStatus [null_entry] ''nonexistent-id'' = Inl TypeError"
proof -
  have n: "demo_id \<noteq> ''nonexistent-id''" "demo_id \<noteq> []"
    using length_sha256Hex [of demo_memo] by (auto simp: demo_id_def simp del: length_sha256Hex)
  have a: "scan_for_invoice ''nonexistent-id'' [demo_invoice_entry] = Inr not_verified"
    using demo_calcId n by (intro scan_for_invoice_absent) (simp add: demo_invoice_entry_def)
  have b: "scan_for_invoice demo_id (replicate 1000 old_entry) = Inr not_verified"
    by (intro scan_for_invoice_absent) (simp add: old_entry_def)
  have absent:
    "verifyInvoice [demo_invoice_entry] (Some ''nonexistent-id'') None
       = Inr \<lparr>verified = False, invoice_record = None\<rparr>"
    "verifyInvoice (replicate 1000 old_entry @ [demo_invoice_entry]) (Some demo_id) None
       = Inr \<lparr>verified = False, invoice_record = None\<rparr>"
    using a b n
    by (simp_all add: verifyInvoice_def truthy_arg_def getSignaturesForAddress_def
        not_verified_def del: scan_for_invoice.simps)
  then have status:
    "getInvoiceStatus [demo_invoice_entry] ''nonexistent-id'' = Inr InvoiceNotFound"
    "getInvoiceStatus (replicate 1000 old_entry @ [demo_invoice_entry]) demo_id
       = Inr InvoiceNotFound"
    by (simp_all add: getInvoiceStatus_def)
  have throws:
    "verifyInvoice [corrupt_entry] (Some ''nonexistent-id'') None = Inl SyntaxError"
    "getInvoiceStatus [corrupt_entry] ''nonexistent-id'' = Inl SyntaxError"
    "verifyInvoice [corrupt_entry, demo_invoice_entry] (Some ''nonexistent-id'') None
       = Inl SyntaxError"
    "getInvoiceStatus [corrupt_entry, demo_invoice_entry] ''nonexistent-id'' = Inl SyntaxError"
    "verifyInvoice [null_entry] (Some ''nonexistent-id'') None = Inl TypeError"
    "getInvoiceStatus [null_entry] ''nonexistent-id'' = Inl TypeError"
    by (simp_all add: getInvoiceStatus_def verifyInvoice_def truthy_arg_def
        getSignaturesForAddress_def corrupt_entry_def null_entry_def
        memo_calcId_def parse_hello parse_null canonical_subset_def)
  show ?thesis by (intro conjI absent status throws)
qed

section \<open>Credit simulation\<close>

text \<open>
  C8. A response of an oracle that carries a borrowing power of 0 is not returned. The
  one endpoint configured answers with status ok and the result \<open>zero_power_payload\<close>,
  which has the three fields \<^verbatim>\<open>borrowingPower\<close>, \<^verbatim>\<open>riskTier\<close> and
  \<^verbatim>\<open>expectedLoanTerms\<close>; the test of the shape is a test of truthiness, 0 is falsy, and
  \<^verbatim>\<open>simulateCredit\<close> returns what the local evaluator computes instead.
\<close>

theorem zero_borrowing_power_skipped:
  "member zero_power_payload ''borrowingPower'' = JNum (Finite 0 0)
   \<and> \<not> shape_valid zero_power_payload
   \<and> simulateCredit (Some [''https://oracle.example/credit''])
        (\<lambda>url body. Response True (Some zero_power_payload)) (\<lambda>invoice. Inr local_payload)
        (JObj [(''invoiceId'', JStr demo_id)])
      = Inr local_payload
   \<and> local_payload \<noteq> zero_power_payload"
  by (simp add: simulateCredit_def shape_valid_def zero_power_payload_def local_payload_def
      member_def obj_get_def)

end
